theory Spec2Isabelle
  imports Complex_Main "HOL-Library.Sublist"
begin

section \<open>JavaScript values used by performance-test.js\<close>

text \<open>
  The analyzer of \<^verbatim>\<open>performance-test.js\<close> computes with JavaScript numbers and, through
  \<^verbatim>\<open>toFixed(2)\<close>, with strings that are later compared with numbers. A finite number is
  modelled by the rational it denotes. Byte counts and millisecond counts are integers,
  whose sums and differences are exact in double arithmetic at this size. Where the code
  divides and multiplies to a fraction, for the utilization rate, the result is rounded to
  a double by \<open>round_double\<close> below. The three non-finite numbers are constructors of their
  own, so that \<^verbatim>\<open>0 / 0\<close> is a value of the model and not an unspecified term.
\<close>

datatype jsnum = NaN | PosInf | NegInf | Fin rat

text \<open>
  The quotient of two finite numbers where the overall summary takes its means, the divisor
  being \<^verbatim>\<open>+0\<close> when it is zero. The quotient is exact here; the double of JavaScript is
  the one nearest to it.
\<close>

definition js_div :: "rat \<Rightarrow> rat \<Rightarrow> jsnum" where
  "js_div a b =
     (if b \<noteq> 0 then Fin (a / b)
      else if a = 0 then NaN
      else if 0 < a then PosInf
      else NegInf)"

text \<open>\<^verbatim>\<open>Math.round\<close>: the nearest integer, a tie going up; non-finite numbers stay.\<close>

fun math_round :: "jsnum \<Rightarrow> jsnum" where
  "math_round (Fin x) = Fin (of_int \<lfloor>x + 1 / 2\<rfloor>)"
| "math_round NaN = NaN"
| "math_round PosInf = PosInf"
| "math_round NegInf = NegInf"

subsection \<open>Rounding to a double\<close>

text \<open>
  The double nearest to a rational, as IEEE 754 binary64 arithmetic rounds the exact result
  of an operation: 53 significant bits, to nearest with ties to even, the smallest unit in
  the last place \<open>2 powi (- 1074)\<close>, and infinity from \<open>2 ^ 1024\<close> on. For \<open>x > 0\<close>,
  \<open>binary_exponent x\<close> is the \<open>e\<close> with \<open>2 powi e \<le> x < 2 powi (e + 1)\<close>.
\<close>

function log2_floor :: "int \<Rightarrow> int" where
  "log2_floor n = (if n < 2 then 0 else 1 + log2_floor (n div 2))"
  by pat_completeness auto
termination
  by (relation "measure nat") auto

declare log2_floor.simps [simp del]

definition binary_exponent :: "rat \<Rightarrow> int" where
  "binary_exponent x =
     (if 1 \<le> x then log2_floor \<lfloor>x\<rfloor>
      else - (1 + log2_floor (\<lceil>1 / x\<rceil> - 1)))"

definition nearest_even :: "rat \<Rightarrow> int" where
  "nearest_even z =
     (let f = \<lfloor>z\<rfloor>; d = z - of_int f
      in if d < 1 / 2 then f
         else if 1 / 2 < d then f + 1
         else if even f then f else f + 1)"

definition ulp_exponent :: "rat \<Rightarrow> int" where
  "ulp_exponent a = max (binary_exponent a - 52) (- 1074)"

definition round_magnitude :: "rat \<Rightarrow> rat" where
  "round_magnitude a =
     of_int (nearest_even (a / 2 powi ulp_exponent a)) * 2 powi ulp_exponent a"

definition round_double :: "rat \<Rightarrow> jsnum" where
  "round_double x =
     (if x = 0 then Fin 0
      else if 2 ^ 1024 \<le> round_magnitude \<bar>x\<bar> then (if x < 0 then NegInf else PosInf)
      else Fin (if x < 0 then - round_magnitude \<bar>x\<bar> else round_magnitude \<bar>x\<bar>))"

fun js_negate :: "jsnum \<Rightarrow> jsnum" where
  "js_negate (Fin x) = Fin (- x)"
| "js_negate NaN = NaN"
| "js_negate PosInf = NegInf"
| "js_negate NegInf = PosInf"

subsection \<open>Numbers and strings as values\<close>

text \<open>
  The values the field \<^verbatim>\<open>utilizationRate\<close> can hold: a number, or a string. The string
  that \<^verbatim>\<open>toFixed\<close> returns for a magnitude of at least \<open>10\<^sup>2\<^sup>1\<close> is the exponential
  notation of \<^verbatim>\<open>ToString\<close>; its characters are not modelled, only the number it denotes.
\<close>

datatype jsval = JNumber rat | JString string | JStringExp rat

subsection \<open>Decimal digits\<close>

definition digit_char :: "nat \<Rightarrow> char" where
  "digit_char d = ''0123456789'' ! d"

definition digit_val :: "char \<Rightarrow> nat option" where
  "digit_val = map_of
     [(CHR ''0'', 0), (CHR ''1'', 1), (CHR ''2'', 2), (CHR ''3'', 3), (CHR ''4'', 4),
      (CHR ''5'', 5), (CHR ''6'', 6), (CHR ''7'', 7), (CHR ''8'', 8), (CHR ''9'', 9)]"

fun digits_of :: "nat \<Rightarrow> string" where
  "digits_of n = (if n < 10 then [digit_char n] else digits_of (n div 10) @ [digit_char (n mod 10)])"

declare digits_of.simps [simp del]

fun digits_val :: "nat \<Rightarrow> string \<Rightarrow> nat option" where
  "digits_val acc [] = Some acc"
| "digits_val acc (c # cs) =
     (case digit_val c of None \<Rightarrow> None | Some d \<Rightarrow> digits_val (10 * acc + d) cs)"

subsection \<open>\<^verbatim>\<open>Number.prototype.toFixed(2)\<close>\<close>

text \<open>
  For \<open>0 \<le> x < 10\<^sup>2\<^sup>1\<close> the result is the decimal expansion of \<open>n / 100\<close>, where \<open>n\<close> is
  the integer nearest to \<open>100 * x\<close> (the larger one on a tie): the digits of \<open>n\<close>, padded
  to at least three, with the point before the last two.
\<close>

definition fixed2_digits :: "rat \<Rightarrow> string" where
  "fixed2_digits x =
     (let n = nat \<lfloor>x * 100 + 1 / 2\<rfloor>
      in digits_of (n div 100) @ ''.'' @ [digit_char (n mod 100 div 10), digit_char (n mod 10)])"

text \<open>A negative number is rendered as \<^verbatim>\<open>-\<close> followed by the rendering of its negation.\<close>

definition fixed2 :: "rat \<Rightarrow> jsval" where
  "fixed2 x =
     (if 10 ^ 21 \<le> \<bar>x\<bar> then JStringExp x
      else if x < 0 then JString (''-'' @ fixed2_digits (- x))
      else JString (fixed2_digits x))"

text \<open>A number that is not finite is rendered by its name.\<close>

fun toFixed2 :: "jsnum \<Rightarrow> jsval" where
  "toFixed2 (Fin x) = fixed2 x"
| "toFixed2 NaN = JString ''NaN''"
| "toFixed2 PosInf = JString ''Infinity''"
| "toFixed2 NegInf = JString ''-Infinity''"

subsection \<open>\<^verbatim>\<open>ToNumber\<close> and the comparison \<^verbatim>\<open><\<close>\<close>

text \<open>
  Reading a string as a number: the double nearest to the decimal it spells. The literal
  forms modelled are the ones \<^verbatim>\<open>toFixed\<close> writes and their neighbours: the empty string
  (zero), an optional sign, \<^verbatim>\<open>Infinity\<close>, decimal digits, and an optional point with further
  digits. The exponential notation that \<^verbatim>\<open>toFixed\<close> falls back to is the constructor
  \<open>JStringExp\<close>. Any other string reads as \<open>NaN\<close> here: the further literal forms of
  JavaScript (radix prefixes, surrounding white space) are written by no function of this
  program.
\<close>

definition unsigned_decimal :: "string \<Rightarrow> rat option" where
  "unsigned_decimal s =
     (let ip = takeWhile (\<lambda>c. c \<noteq> CHR ''.'') s;
          rest = dropWhile (\<lambda>c. c \<noteq> CHR ''.'') s
      in case rest of
           [] \<Rightarrow> (if ip = [] then None else map_option of_nat (digits_val 0 ip))
         | _ # fp \<Rightarrow>
             (if ip = [] \<and> fp = [] then None
              else case (digits_val 0 ip, digits_val 0 fp) of
                     (Some i, Some f) \<Rightarrow> Some (of_nat i + of_nat f / 10 ^ length fp)
                   | _ \<Rightarrow> None))"

definition unsigned_number :: "string \<Rightarrow> jsnum" where
  "unsigned_number s =
     (if s = ''Infinity'' then PosInf
      else case unsigned_decimal s of None \<Rightarrow> NaN | Some x \<Rightarrow> round_double x)"

definition StringToNumber :: "string \<Rightarrow> jsnum" where
  "StringToNumber s =
     (case s of
        [] \<Rightarrow> Fin 0
      | c # cs \<Rightarrow>
          (if c = CHR ''-'' then js_negate (unsigned_number cs)
           else if c = CHR ''+'' then unsigned_number cs
           else unsigned_number s))"

fun ToNumber :: "jsval \<Rightarrow> jsnum" where
  "ToNumber (JNumber x) = Fin x"
| "ToNumber (JString s) = StringToNumber s"
| "ToNumber (JStringExp x) = Fin x"

text \<open>
  \<^verbatim>\<open>v < c\<close> for a number literal \<open>c\<close>: the left operand is converted to a number first, and
  a comparison with \<open>NaN\<close> is false.
\<close>

definition js_less :: "jsval \<Rightarrow> rat \<Rightarrow> bool" where
  "js_less v c = (case ToNumber v of Fin x \<Rightarrow> x < c | NegInf \<Rightarrow> True | _ \<Rightarrow> False)"

section \<open>The coverage-based bundle analysis\<close>

text \<open>
  A coverage entry as \<^verbatim>\<open>analyzeBundleSize\<close> reads it: the source text (only its length
  is used) and the used ranges, each with a start and an end offset.
\<close>

record coverage_range =
  range_start :: int
  range_end :: int

record coverage_entry =
  entry_text :: string
  ranges :: "coverage_range list"

record bundle_stat =
  totalSize :: int
  usedSize :: int
  unusedSize :: int
  utilizationRate :: jsval

record bundle_analysis =
  javascript :: bundle_stat
  css :: bundle_stat

text \<open>The inner \<^verbatim>\<open>forEach\<close>: every range adds \<^verbatim>\<open>range.end - range.start\<close> to the used size.\<close>

definition add_ranges :: "coverage_range list \<Rightarrow> int \<Rightarrow> int" where
  "add_ranges rs used = fold (\<lambda>range u. u + (range_end range - range_start range)) rs used"

text \<open>The outer \<^verbatim>\<open>forEach\<close> over one coverage list, on the pair (total size, used size).\<close>

definition add_coverage :: "coverage_entry list \<Rightarrow> int \<times> int \<Rightarrow> int \<times> int" where
  "add_coverage cov acc =
     fold (\<lambda>coverage (tot, used).
             (tot + int (length (entry_text coverage)), add_ranges (ranges coverage) used))
       cov acc"

text \<open>
  \<^verbatim>\<open>used / total * 100\<close> in double arithmetic: the quotient is rounded to a double, and so
  is its product with 100.
\<close>

definition utilization :: "int \<Rightarrow> int \<Rightarrow> jsnum" where
  "utilization used tot =
     (case round_double (of_int used / of_int tot) of
        Fin q \<Rightarrow> round_double (q * 100)
      | NaN \<Rightarrow> NaN
      | PosInf \<Rightarrow> PosInf
      | NegInf \<Rightarrow> NegInf)"

definition stat_of :: "int \<times> int \<Rightarrow> bundle_stat" where
  "stat_of tu =
     (case tu of (tot, used) \<Rightarrow>
        \<lparr>totalSize = tot,
         usedSize = used,
         unusedSize = tot - used,
         utilizationRate =
           (if tot > 0 then toFixed2 (utilization used tot) else JNumber 0)\<rparr>)"

definition analyzeBundleSize :: "coverage_entry list \<Rightarrow> coverage_entry list \<Rightarrow> bundle_analysis" where
  "analyzeBundleSize jsCoverage cssCoverage =
     \<lparr>javascript = stat_of (add_coverage jsCoverage (0, 0)),
      css = stat_of (add_coverage cssCoverage (0, 0))\<rparr>"

section \<open>Page results, scoring and recommendations\<close>

text \<open>
  The result object of one page, with the fields that the scoring, the recommendations and
  the overall summary read. \<^verbatim>\<open>webVitals\<close> is keyed by the vital's name; a vital that was not
  observed is absent.
\<close>

record vital =
  vital_value :: rat
  rating :: string

record resource_metrics =
  totalResources :: nat

record page_result =
  pageName :: string
  url :: string
  timestamp :: string
  loadTime :: int
  webVitals :: "string \<rightharpoonup> vital"
  resourceMetrics :: resource_metrics
  bundleAnalysis :: bundle_analysis

text \<open>\<^verbatim>\<open>vitals.NAME?.value > c\<close>: false when the vital is absent (\<^verbatim>\<open>undefined > c\<close>).\<close>

definition vital_exceeds :: "(string \<rightharpoonup> vital) \<Rightarrow> string \<Rightarrow> rat \<Rightarrow> bool" where
  "vital_exceeds vitals name c = (case vitals name of None \<Rightarrow> False | Some v \<Rightarrow> c < vital_value v)"

text \<open>
  The body of the \<^verbatim>\<open>forEach\<close> of \<^verbatim>\<open>calculateOverallScore\<close>: the local \<^verbatim>\<open>pageScore\<close> after the
  six deductions, before \<^verbatim>\<open>Math.max(0, pageScore)\<close> is added to the total.
\<close>

definition pageScore :: "page_result \<Rightarrow> int" where
  "pageScore result =
     (let s = 100;
          s = (if loadTime result > 3000 then s - 20 else s);
          s = (if loadTime result > 5000 then s - 30 else s);
          s = (if js_less (utilizationRate (javascript (bundleAnalysis result))) 50 then s - 15 else s);
          s = (if js_less (utilizationRate (css (bundleAnalysis result))) 60 then s - 10 else s);
          s = (if vital_exceeds (webVitals result) ''LCP'' 2500 then s - 25 else s);
          s = (if vital_exceeds (webVitals result) ''FID'' 100 then s - 20 else s)
      in s)"

definition totalScore :: "page_result list \<Rightarrow> int" where
  "totalScore results = fold (\<lambda>result t. t + max 0 (pageScore result)) results 0"

definition calculateOverallScore :: "page_result list \<Rightarrow> jsnum" where
  "calculateOverallScore results =
     math_round (js_div (of_int (totalScore results)) (of_nat (length results)))"

text \<open>
  The recommendation messages. Each constructor stands for one of the seven fixed strings
  of \<^verbatim>\<open>generateRecommendations\<close>; \<open>message\<close> gives the string, its leading sign as UTF-8
  bytes.
\<close>

datatype recommendation =
  LowJavaScriptUtilization | LowCSSUtilization | SlowLoadingTime | TooManyResources
  | PoorLCP | PoorFID | GreatPerformance

definition warning_sign :: string where
  "warning_sign = [CHR 0xE2, CHR 0x9A, CHR 0xA0, CHR 0xEF, CHR 0xB8, CHR 0x8F]"

definition check_mark :: string where
  "check_mark = [CHR 0xE2, CHR 0x9C, CHR 0x85]"

fun message :: "recommendation \<Rightarrow> string" where
  "message LowJavaScriptUtilization =
     warning_sign @ '' **JavaScript utilization is low** - Consider code splitting to reduce unused code''"
| "message LowCSSUtilization =
     warning_sign @ '' **CSS utilization is low** - Remove unused CSS rules or implement critical CSS''"
| "message SlowLoadingTime =
     warning_sign @ '' **Slow loading time** - Optimize images, enable compression, and implement caching''"
| "message TooManyResources =
     warning_sign @ '' **Too many resources** - Consider bundling and reducing HTTP requests''"
| "message PoorLCP =
     warning_sign @ '' **Poor LCP** - Optimize largest contentful paint by optimizing images and critical resources''"
| "message PoorFID =
     warning_sign @ '' **Poor FID** - Reduce JavaScript execution time and optimize event handlers''"
| "message GreatPerformance =
     check_mark @ '' **Great performance!** - All metrics are within acceptable ranges''"

text \<open>The array \<^verbatim>\<open>recommendations\<close> after the six conditional pushes and the final one.\<close>

definition recommendations :: "page_result \<Rightarrow> recommendation list" where
  "recommendations results =
     (let rs =
        (if js_less (utilizationRate (javascript (bundleAnalysis results))) 50
         then [LowJavaScriptUtilization] else [])
        @ (if js_less (utilizationRate (css (bundleAnalysis results))) 60
           then [LowCSSUtilization] else [])
        @ (if loadTime results > 3000 then [SlowLoadingTime] else [])
        @ (if totalResources (resourceMetrics results) > 100 then [TooManyResources] else [])
        @ (if vital_exceeds (webVitals results) ''LCP'' 2500 then [PoorLCP] else [])
        @ (if vital_exceeds (webVitals results) ''FID'' 100 then [PoorFID] else [])
      in if length rs = 0 then [GreatPerformance] else rs)"

text \<open>\<^verbatim>\<open>Array.prototype.join\<close> with a separator.\<close>

fun join :: "string \<Rightarrow> string list \<Rightarrow> string" where
  "join sep [] = []"
| "join sep [x] = x"
| "join sep (x # y # ys) = x @ sep @ join sep (y # ys)"

definition generateRecommendations :: "page_result \<Rightarrow> string" where
  "generateRecommendations results = join [CHR 0x0A] (map message (recommendations results))"

section \<open>Resource classification\<close>

text \<open>
  \<^verbatim>\<open>url.match(/\.(e1|...|en)$/)\<close> finds a match exactly when the URL ends with a point
  followed by one of the extensions (\<^verbatim>\<open>$\<close> without the multiline flag is the end of the
  input).
\<close>

definition matches_extension :: "string \<Rightarrow> string list \<Rightarrow> bool" where
  "matches_extension u exts = list_ex (\<lambda>e. suffix (CHR ''.'' # e) u) exts"

definition getResourceType :: "string \<Rightarrow> string" where
  "getResourceType u =
     (if matches_extension u [''js'', ''jsx'', ''ts'', ''tsx''] then ''scripts''
      else if matches_extension u [''css'', ''scss'', ''sass''] then ''stylesheets''
      else if matches_extension u [''jpg'', ''jpeg'', ''png'', ''gif'', ''webp'', ''avif'', ''svg'']
        then ''images''
      else if matches_extension u [''woff'', ''woff2'', ''ttf'', ''otf'', ''eot''] then ''fonts''
      else ''other'')"

section \<open>Analysing one page\<close>

text \<open>
  \<^verbatim>\<open>analyzePage\<close> talks to the browser and to the file system. Each of these calls either
  returns or throws; what it does is the environment's choice, which the model takes as
  an input. The calls inside the \<^verbatim>\<open>try\<close> block, in the order of the source:
\<close>

datatype step =
  NewPage | SetCacheEnabled | SetViewport | StartJSCoverage | StartCSSCoverage | Goto
  | GetWebVitals | GetResourceMetrics | StopJSCoverage | StopCSSCoverage
  | GetLighthouseMetrics | WriteResults | WriteSummaryReport

definition try_block :: "step list" where
  "try_block =
     [NewPage, SetCacheEnabled, SetViewport, StartJSCoverage, StartCSSCoverage, Goto,
      GetWebVitals, GetResourceMetrics, StopJSCoverage, StopCSSCoverage,
      GetLighthouseMetrics, WriteResults, WriteSummaryReport]"

text \<open>
  The environment of one page analysis: whether \<^verbatim>\<open>puppeteer.launch\<close> returns a browser,
  the first call of the \<^verbatim>\<open>try\<close> block that throws (if any), whether \<^verbatim>\<open>browser.close\<close>
  returns, and the data the calls return when they succeed.
\<close>

record page_env =
  launch_ok :: bool
  failing_step :: "step option"
  close_ok :: bool
  measured_loadTime :: int
  measured_webVitals :: "string \<rightharpoonup> vital"
  measured_totalResources :: nat
  jsCoverage :: "coverage_entry list"
  cssCoverage :: "coverage_entry list"
  clock_iso :: string
  clock_millis :: int

datatype error = LaunchFailed | StepFailed step | CloseFailed | OverallSummaryWriteFailed

text \<open>
  The report files, by name: \<^verbatim>\<open><pageName>-<millis>.json\<close>, \<^verbatim>\<open><pageName>-summary.md\<close> and
  \<^verbatim>\<open>overall-summary.json\<close>; and what is written to them. Of the Markdown report only the
  recommendations section is modelled. \<^verbatim>\<open>JSON.stringify\<close> writes a number that is not finite
  as \<^verbatim>\<open>null\<close>.
\<close>

datatype report_file = ResultFile string int | SummaryFile string | OverallSummaryFile

datatype json = JsonNull | JsonNumber rat | JsonString string

datatype content =
  ResultJson page_result | SummaryReport string | OverallJson "(string \<times> json) list"

fun json_of_number :: "jsnum \<Rightarrow> json" where
  "json_of_number (Fin x) = JsonNumber x"
| "json_of_number NaN = JsonNull"
| "json_of_number PosInf = JsonNull"
| "json_of_number NegInf = JsonNull"

text \<open>
  The world a run changes: the report directory, and the calls made to the browser and
  the file system so far, oldest first.
\<close>

datatype call = Launch | Call step | Close | WriteOverallSummary

record world =
  files :: "report_file \<rightharpoonup> content"
  calls :: "call list"

definition record_call :: "call \<Rightarrow> world \<Rightarrow> world" where
  "record_call c w = w\<lparr>calls := calls w @ [c]\<rparr>"

text \<open>The object \<^verbatim>\<open>results\<close> that \<^verbatim>\<open>analyzePage\<close> assembles from what the calls returned.\<close>

definition assemble :: "string \<Rightarrow> string \<Rightarrow> page_env \<Rightarrow> page_result" where
  "assemble u name env =
     \<lparr>pageName = name,
      url = u,
      timestamp = clock_iso env,
      loadTime = measured_loadTime env,
      webVitals = measured_webVitals env,
      resourceMetrics = \<lparr>totalResources = measured_totalResources env\<rparr>,
      bundleAnalysis = analyzeBundleSize (jsCoverage env) (cssCoverage env)\<rparr>"

text \<open>What a call of the \<^verbatim>\<open>try\<close> block that returns leaves behind (\<^verbatim>\<open>saveResults\<close> writes two files).\<close>

definition effect :: "string \<Rightarrow> string \<Rightarrow> page_env \<Rightarrow> step \<Rightarrow> world \<Rightarrow> world" where
  "effect u name env st w =
     (if st = WriteResults
      then w\<lparr>files := (files w)(ResultFile name (clock_millis env) \<mapsto> ResultJson (assemble u name env))\<rparr>
      else if st = WriteSummaryReport
      then w\<lparr>files := (files w)(SummaryFile name \<mapsto>
              SummaryReport (generateRecommendations (assemble u name env)))\<rparr>
      else w)"

text \<open>
  Running the calls in order: a call that throws ends the block with its error, the calls
  after it are not made.
\<close>

fun run_steps :: "string \<Rightarrow> string \<Rightarrow> page_env \<Rightarrow> step list \<Rightarrow> world \<Rightarrow> error option \<times> world" where
  "run_steps u name env [] w = (None, w)"
| "run_steps u name env (st # sts) w =
     (if failing_step env = Some st then (Some (StepFailed st), record_call (Call st) w)
      else run_steps u name env sts (effect u name env st (record_call (Call st) w)))"

text \<open>
  \<^verbatim>\<open>analyzePage\<close>: launch, the \<^verbatim>\<open>try\<close> block, and \<^verbatim>\<open>browser.close()\<close> in the \<^verbatim>\<open>finally\<close>
  clause. An error thrown by \<^verbatim>\<open>close\<close> replaces the outcome of the block.
\<close>

definition analyzePage :: "string \<Rightarrow> string \<Rightarrow> page_env \<Rightarrow> world \<Rightarrow> (error + page_result) \<times> world" where
  "analyzePage u name env w =
     (if \<not> launch_ok env then (Inl LaunchFailed, record_call Launch w)
      else
        (case run_steps u name env try_block (record_call Launch w) of
           (outcome, w') \<Rightarrow>
             (if \<not> close_ok env then (Inl CloseFailed, record_call Close w')
              else case outcome of
                     Some e \<Rightarrow> (Inl e, record_call Close w')
                   | None \<Rightarrow> (Inr (assemble u name env), record_call Close w'))))"

section \<open>The batch run\<close>

record batch_env =
  page_env_of :: "string \<Rightarrow> page_env"
  summary_write_ok :: bool
  summary_clock_iso :: string

definition pages :: "string \<Rightarrow> (string \<times> string) list" where
  "pages baseUrl =
     [(baseUrl @ ''/'', ''home''),
      (baseUrl @ ''/customers'', ''customers''),
      (baseUrl @ ''/dashboard'', ''dashboard''),
      (baseUrl @ ''/reports'', ''reports'')]"

text \<open>
  The \<^verbatim>\<open>for\<close> loop of \<^verbatim>\<open>runFullAnalysis\<close>: the \<^verbatim>\<open>catch\<close> clause takes every error that
  \<^verbatim>\<open>analyzePage\<close> throws, logs it and goes on with the next page.
\<close>

fun analyze_pages ::
  "(string \<Rightarrow> page_env) \<Rightarrow> (string \<times> string) list \<Rightarrow> page_result list \<Rightarrow> world
     \<Rightarrow> page_result list \<times> world" where
  "analyze_pages envs [] results w = (results, w)"
| "analyze_pages envs ((u, name) # ps) results w =
     (case analyzePage u name (envs name) w of
        (Inr result, w') \<Rightarrow> analyze_pages envs ps (results @ [result]) w'
      | (Inl e, w') \<Rightarrow> analyze_pages envs ps results w')"

record overall_summary =
  summary_timestamp :: string
  totalPages :: nat
  averageLoadTime :: jsnum
  performanceScore :: jsnum

definition summary_of :: "string \<Rightarrow> page_result list \<Rightarrow> overall_summary" where
  "summary_of now results =
     \<lparr>summary_timestamp = now,
      totalPages = length results,
      averageLoadTime =
        js_div (of_int (fold (\<lambda>r sum. sum + loadTime r) results 0)) (of_nat (length results)),
      performanceScore = calculateOverallScore results\<rparr>"

definition stringify_summary :: "overall_summary \<Rightarrow> (string \<times> json) list" where
  "stringify_summary summary =
     [(''timestamp'', JsonString (summary_timestamp summary)),
      (''totalPages'', JsonNumber (of_nat (totalPages summary))),
      (''averageLoadTime'', json_of_number (averageLoadTime summary)),
      (''performanceScore'', json_of_number (performanceScore summary))]"

definition generateOverallSummary :: "batch_env \<Rightarrow> page_result list \<Rightarrow> world \<Rightarrow> error option \<times> world" where
  "generateOverallSummary env results w =
     (if summary_write_ok env
      then (None, (record_call WriteOverallSummary w)
              \<lparr>files := (files w)(OverallSummaryFile \<mapsto>
                 OverallJson (stringify_summary (summary_of (summary_clock_iso env) results)))\<rparr>)
      else (Some OverallSummaryWriteFailed, record_call WriteOverallSummary w))"

definition runFullAnalysis :: "string \<Rightarrow> batch_env \<Rightarrow> world \<Rightarrow> (error + page_result list) \<times> world" where
  "runFullAnalysis baseUrl env w =
     (case analyze_pages (page_env_of env) (pages baseUrl) [] w of
        (results, w') \<Rightarrow>
          (case generateOverallSummary env results w' of
             (Some e, w'') \<Rightarrow> (Inl e, w'')
           | (None, w'') \<Rightarrow> (Inr results, w'')))"

text \<open>The command line entry: \<^verbatim>\<open>.then(() => process.exit(0)).catch(... process.exit(1))\<close>.\<close>

definition exit_code :: "string \<Rightarrow> batch_env \<Rightarrow> world \<Rightarrow> int" where
  "exit_code baseUrl env w =
     (case fst (runFullAnalysis baseUrl env w) of Inr results \<Rightarrow> 0 | Inl e \<Rightarrow> 1)"

section \<open>Example inputs\<close>

text \<open>Coverage with two overlapping ranges, and coverage as the browser reports it.\<close>

definition overlapping_coverage :: "coverage_entry list" where
  "overlapping_coverage =
     [\<lparr>entry_text = ''abcd'',
       ranges = [\<lparr>range_start = 0, range_end = 4\<rparr>, \<lparr>range_start = 1, range_end = 3\<rparr>]\<rparr>]"

definition sample_js_coverage :: "coverage_entry list" where
  "sample_js_coverage =
     [\<lparr>entry_text = ''function f(){}'',
       ranges = [\<lparr>range_start = 0, range_end = 3\<rparr>, \<lparr>range_start = 5, range_end = 6\<rparr>]\<rparr>,
      \<lparr>entry_text = ''g()'', ranges = []\<rparr>]"

definition sample_css_coverage :: "coverage_entry list" where
  "sample_css_coverage = [\<lparr>entry_text = ''a{}'', ranges = [\<lparr>range_start = 0, range_end = 3\<rparr>]\<rparr>]"

text \<open>A page result with the values of the first scoring example, and of the second.\<close>

definition sample_result :: page_result where
  "sample_result =
     \<lparr>pageName = ''home'', url = ''http://localhost:3000/'',
      timestamp = ''2024-01-01T00:00:00.000Z'',
      loadTime = 4000, webVitals = Map.empty, resourceMetrics = \<lparr>totalResources = 12\<rparr>,
      bundleAnalysis =
        \<lparr>javascript = \<lparr>totalSize = 1000, usedSize = 400, unusedSize = 600,
                        utilizationRate = JString ''40.00''\<rparr>,
         css = \<lparr>totalSize = 1000, usedSize = 700, unusedSize = 300,
                 utilizationRate = JString ''70.00''\<rparr>\<rparr>\<rparr>"

definition slow_result :: page_result where
  "slow_result =
     \<lparr>pageName = ''reports'', url = ''http://localhost:3000/reports'',
      timestamp = ''2024-01-01T00:00:05.000Z'',
      loadTime = 6000,
      webVitals = [''LCP'' \<mapsto> \<lparr>vital_value = 3000, rating = ''needs-improvement''\<rparr>,
                   ''FID'' \<mapsto> \<lparr>vital_value = 150, rating = ''needs-improvement''\<rparr>],
      resourceMetrics = \<lparr>totalResources = 40\<rparr>,
      bundleAnalysis =
        \<lparr>javascript = \<lparr>totalSize = 1000, usedSize = 800, unusedSize = 200,
                        utilizationRate = JString ''80.00''\<rparr>,
         css = \<lparr>totalSize = 500, usedSize = 400, unusedSize = 100,
                 utilizationRate = JString ''80.00''\<rparr>\<rparr>\<rparr>"

text \<open>Coverage whose single range reaches far beyond its one-character text.\<close>

definition huge_coverage :: "coverage_entry list" where
  "huge_coverage = [\<lparr>entry_text = ''a'', ranges = [\<lparr>range_start = 0, range_end = 10 ^ 19\<rparr>]\<rparr>]"

text \<open>
  Environments of a page analysis: every call returns; navigation throws; writing the
  result file throws. The empty report directory. Environments of a batch: two of four
  pages fail navigation; every page fails; the result file of the first page cannot be
  written; the overall summary cannot be written.
\<close>

definition page_ok :: "int \<Rightarrow> page_env" where
  "page_ok ms =
     \<lparr>launch_ok = True, failing_step = None, close_ok = True,
      measured_loadTime = ms, measured_webVitals = Map.empty, measured_totalResources = 10,
      jsCoverage = sample_js_coverage, cssCoverage = sample_css_coverage,
      clock_iso = ''2024-01-01T00:00:00.000Z'', clock_millis = 1704067200000\<rparr>"

definition navigation_fails :: page_env where
  "navigation_fails = (page_ok 0)\<lparr>failing_step := Some Goto\<rparr>"

definition write_fails :: page_env where
  "write_fails = (page_ok 1200)\<lparr>failing_step := Some WriteResults\<rparr>"

definition empty_world :: world where
  "empty_world = \<lparr>files = Map.empty, calls = []\<rparr>"


definition all_failing :: batch_env where
  "all_failing =
     \<lparr>page_env_of = (\<lambda>name. navigation_fails),
      summary_write_ok = True, summary_clock_iso = ''2024-01-01T00:01:00.000Z''\<rparr>"

definition result_unwritable :: batch_env where
  "result_unwritable =
     \<lparr>page_env_of = (\<lambda>name. if name = ''home'' then write_fails else page_ok 1000),
      summary_write_ok = True, summary_clock_iso = ''2024-01-01T00:01:00.000Z''\<rparr>"

definition summary_unwritable :: batch_env where
  "summary_unwritable =
     \<lparr>page_env_of = (\<lambda>name. page_ok 1000),
      summary_write_ok = False, summary_clock_iso = ''2024-01-01T00:01:00.000Z''\<rparr>"

text \<open>Coverage of 9999 bytes of a text of 20000 characters.\<close>

definition near_half_coverage :: "coverage_entry list" where
  "near_half_coverage =
     [\<lparr>entry_text = replicate 20000 (CHR ''a''),
       ranges = [\<lparr>range_start = 0, range_end = 9999\<rparr>]\<rparr>]"

section \<open>Notions used to state the properties\<close>

text \<open>
  Coverage as the browser's coverage mechanism reports it: the ranges of an entry are in
  ascending order, do not overlap, and lie inside the entry's text.
\<close>

fun ranges_within :: "int \<Rightarrow> int \<Rightarrow> coverage_range list \<Rightarrow> bool" where
  "ranges_within lo hi [] = (lo \<le> hi)"
| "ranges_within lo hi (r # rs) =
     (lo \<le> range_start r \<and> range_start r \<le> range_end r \<and> ranges_within (range_end r) hi rs)"

definition disjoint_coverage :: "coverage_entry \<Rightarrow> bool" where
  "disjoint_coverage c = ranges_within 0 (int (length (entry_text c))) (ranges c)"

text \<open>
  A string of the form that \<^verbatim>\<open>toFixed(2)\<close> writes below \<open>10\<^sup>2\<^sup>1\<close>: an optional minus sign, at
  least one digit, a point, and exactly two digits.
\<close>

definition is_digit :: "char \<Rightarrow> bool" where
  "is_digit c = (digit_val c \<noteq> None)"

definition two_fraction_digits :: "string \<Rightarrow> bool" where
  "two_fraction_digits s =
     (let body = (case s of [] \<Rightarrow> [] | c # cs \<Rightarrow> if c = CHR ''-'' then cs else s);
          ip = takeWhile (\<lambda>c. c \<noteq> CHR ''.'') body;
          rest = dropWhile (\<lambda>c. c \<noteq> CHR ''.'') body
      in ip \<noteq> [] \<and> list_all is_digit ip \<and> length rest = 3 \<and> list_all is_digit (tl rest))"

text \<open>The multiple of one hundredth nearest to a number, a tie going away from zero.\<close>

definition nearest_hundredth :: "rat \<Rightarrow> rat" where
  "nearest_hundredth x =
     (if x < 0 then - (of_int \<lfloor>- x * 100 + 1 / 2\<rfloor> / 100) else of_int \<lfloor>x * 100 + 1 / 2\<rfloor> / 100)"

text \<open>A page analysis returns a result exactly when no call of it throws.\<close>

definition page_succeeds :: "page_env \<Rightarrow> bool" where
  "page_succeeds env = (launch_ok env \<and> failing_step env = None \<and> close_ok env)"

text \<open>A field of the overall summary as the report directory holds it.\<close>

definition json_field :: "string \<Rightarrow> content option \<Rightarrow> json option" where
  "json_field key c = (case c of Some (OverallJson kvs) \<Rightarrow> map_of kvs key | _ \<Rightarrow> None)"

text \<open>The pages of a batch whose analysis returns a result, in the order of the run.\<close>

definition successful_pages :: "string \<Rightarrow> batch_env \<Rightarrow> (string \<times> string) list" where
  "successful_pages baseUrl env =
     filter (\<lambda>(u, name). page_succeeds (page_env_of env name)) (pages baseUrl)"

definition results_of :: "batch_env \<Rightarrow> (string \<times> string) list \<Rightarrow> page_result list" where
  "results_of env ps = map (\<lambda>(u, name). assemble u name (page_env_of env name)) ps"

section \<open>Properties of rounding to a double\<close>

lemma log2_floor_small: "n < 2 \<Longrightarrow> log2_floor n = 0"
  by (subst log2_floor.simps) simp

lemma log2_floor_large: "\<not> n < 2 \<Longrightarrow> log2_floor n = 1 + log2_floor (n div 2)"
  by (subst log2_floor.simps) simp

lemma log2_floor_bounds:
  "1 \<le> n \<Longrightarrow> 0 \<le> log2_floor n \<and> 2 ^ nat (log2_floor n) \<le> n \<and> n < 2 ^ nat (log2_floor n + 1)"
proof (induction n rule: log2_floor.induct)
  case (1 n)
  show ?case
  proof (cases "n < 2")
    case True
    with 1(2) show ?thesis by (simp add: log2_floor_small)
  next
    case False
    then have h: "1 \<le> n div 2" by simp
    from 1(1) [OF False h] have l0: "0 \<le> log2_floor (n div 2)"
      and lo: "2 ^ nat (log2_floor (n div 2)) \<le> n div 2"
      and hi: "n div 2 < 2 ^ nat (log2_floor (n div 2) + 1)" by simp_all
    have e: "nat (1 + log2_floor (n div 2)) = Suc (nat (log2_floor (n div 2)))"
      using l0 by simp
    have e2: "nat (2 + log2_floor (n div 2)) = Suc (Suc (nat (log2_floor (n div 2))))"
      using l0 by simp
    have e3: "nat (log2_floor (n div 2) + 1) = Suc (nat (log2_floor (n div 2)))"
      using l0 by simp
    have "2 * 2 ^ nat (log2_floor (n div 2)) \<le> n" using lo by linarith
    moreover have "n < 2 * (2 * 2 ^ nat (log2_floor (n div 2)))"
      using hi unfolding e3 by simp
    ultimately show ?thesis
      using l0 by (simp add: log2_floor_large [OF False] e e2)
  qed
qed

lemma binary_exponent_bounds:
  assumes "0 < x"
  shows "2 powi binary_exponent x \<le> x \<and> x < 2 powi (binary_exponent x + 1)"
proof (cases "1 \<le> x")
  case True
  let ?n = "\<lfloor>x\<rfloor>"
  let ?l = "log2_floor ?n"
  have n: "1 \<le> ?n" using True by simp
  from log2_floor_bounds [OF n] have l0: "0 \<le> ?l" and lo: "2 ^ nat ?l \<le> ?n"
    and hi: "?n < 2 ^ nat (?l + 1)" by simp_all
  have "(of_int (2 ^ nat ?l) :: rat) \<le> of_int ?n" using lo by (simp only: of_int_le_iff)
  then have "(of_int (2 ^ nat ?l) :: rat) \<le> x" using of_int_floor_le [of x] by linarith
  then have a: "(2::rat) ^ nat ?l \<le> x" by simp
  have "?n + 1 \<le> 2 ^ nat (?l + 1)" using hi by simp
  then have "(of_int (?n + 1) :: rat) \<le> of_int (2 ^ nat (?l + 1))" by (simp only: of_int_le_iff)
  moreover have "x < of_int (?n + 1)" by linarith
  ultimately have "x < (of_int (2 ^ nat (?l + 1)) :: rat)" by linarith
  then have b: "x < (2::rat) ^ nat (?l + 1)" by simp
  have "binary_exponent x = ?l" using True by (simp add: binary_exponent_def)
  then show ?thesis using a b l0 by (simp add: power_int_def)
next
  case False
  let ?m = "\<lceil>1 / x\<rceil>"
  let ?n = "?m - 1"
  let ?l = "log2_floor ?n"
  have x1: "x < 1" using False by simp
  have "1 < 1 / x" using assms x1 by simp
  then have m: "2 \<le> ?m" by (simp add: le_ceiling_iff)
  then have n: "1 \<le> ?n" by simp
  from log2_floor_bounds [OF n] have l0: "0 \<le> ?l" and lo: "2 ^ nat ?l \<le> ?n"
    and hi: "?n < 2 ^ nat (?l + 1)" by simp_all
  have "(of_int ?n :: rat) < 1 / x" by linarith
  moreover have "(of_int (2 ^ nat ?l) :: rat) \<le> of_int ?n" using lo by (simp only: of_int_le_iff)
  ultimately have "(of_int (2 ^ nat ?l) :: rat) < 1 / x" by linarith
  then have "(2::rat) ^ nat ?l < 1 / x" by simp
  then have b: "x < 1 / 2 ^ nat ?l" using assms by (simp add: field_simps)
  have "?m \<le> 2 ^ nat (?l + 1)" using hi by simp
  then have "(of_int ?m :: rat) \<le> of_int (2 ^ nat (?l + 1))" by (simp only: of_int_le_iff)
  moreover have "1 / x \<le> of_int ?m" by simp
  ultimately have "1 / x \<le> (of_int (2 ^ nat (?l + 1)) :: rat)" by linarith
  then have "1 / x \<le> (2::rat) ^ nat (?l + 1)" by simp
  then have a: "1 / 2 ^ nat (?l + 1) \<le> x" using assms by (simp add: field_simps)
  have e: "binary_exponent x = - (1 + ?l)" using False by (simp add: binary_exponent_def)
  have p1: "(2::rat) powi (- (1 + ?l)) = 1 / 2 ^ nat (?l + 1)"
    using l0 by (simp add: power_int_def add.commute inverse_eq_divide power_one_over)
  have p2: "(2::rat) powi (- (1 + ?l) + 1) = 1 / 2 ^ nat ?l"
    using l0 by (simp add: power_int_def inverse_eq_divide power_one_over)
  show ?thesis unfolding e p1 p2 using a b by simp
qed

lemma binary_exponent_mono:
  assumes "0 < x" "x \<le> y"
  shows "binary_exponent x \<le> binary_exponent y"
proof (rule ccontr)
  assume "\<not> binary_exponent x \<le> binary_exponent y"
  then have "binary_exponent y + 1 \<le> binary_exponent x" by simp
  then have "(2::rat) powi (binary_exponent y + 1) \<le> 2 powi binary_exponent x"
    by (intro power_int_increasing) simp_all
  moreover have "2 powi binary_exponent x \<le> x" using binary_exponent_bounds [OF assms(1)] by simp
  moreover have "y < 2 powi (binary_exponent y + 1)"
    using binary_exponent_bounds [of y] assms by simp
  ultimately show False using assms(2) by linarith
qed

lemma nearest_even_of_int: "nearest_even (of_int n) = n"
  by (simp add: nearest_even_def)

lemma nearest_even_between: "\<lfloor>z\<rfloor> \<le> nearest_even z \<and> nearest_even z \<le> \<lfloor>z\<rfloor> + 1"
  by (simp add: nearest_even_def Let_def)

lemma nearest_even_mono:
  assumes "z \<le> w"
  shows "nearest_even z \<le> nearest_even w"
proof (cases "\<lfloor>z\<rfloor> = \<lfloor>w\<rfloor>")
  case True
  with assms show ?thesis by (auto simp add: nearest_even_def Let_def)
next
  case False
  then have "\<lfloor>z\<rfloor> + 1 \<le> \<lfloor>w\<rfloor>" using floor_mono [OF assms] by simp
  with nearest_even_between [of z] nearest_even_between [of w] show ?thesis by linarith
qed

lemma nearest_even_le: "z \<le> of_int n \<Longrightarrow> nearest_even z \<le> n"
  using nearest_even_mono [of z "of_int n"] by (simp add: nearest_even_of_int)

lemma nearest_even_ge: "of_int n \<le> z \<Longrightarrow> n \<le> nearest_even z"
  using nearest_even_mono [of "of_int n" z] by (simp add: nearest_even_of_int)

lemma ulp_exponent_mono: "0 < x \<Longrightarrow> x \<le> y \<Longrightarrow> ulp_exponent x \<le> ulp_exponent y"
  using binary_exponent_mono [of x y] by (simp add: ulp_exponent_def)

lemma pow2_pos: "0 < (2::rat) powi k"
  by (simp add: zero_less_power_int)

lemma round_magnitude_nonneg: "0 < a \<Longrightarrow> 0 \<le> round_magnitude a"
proof -
  assume "0 < a"
  then have "0 \<le> a / 2 powi ulp_exponent a" using pow2_pos [of "ulp_exponent a"] by simp
  then have "of_int 0 \<le> a / 2 powi ulp_exponent a" by simp
  then have "0 \<le> nearest_even (a / 2 powi ulp_exponent a)" by (rule nearest_even_ge)
  then show ?thesis using pow2_pos [of "ulp_exponent a"] by (simp add: round_magnitude_def)
qed

text \<open>A bound that is a multiple of the unit in the last place is kept by rounding.\<close>

lemma round_magnitude_le_multiple:
  assumes "a \<le> of_int n * 2 powi j" and "ulp_exponent a \<le> j"
  shows "round_magnitude a \<le> of_int n * 2 powi j"
proof -
  let ?k = "ulp_exponent a"
  have split: "(2::rat) powi j = 2 powi (j - ?k) * 2 powi ?k"
    by (simp flip: power_int_add)
  have int: "(2::rat) powi (j - ?k) = of_int (2 ^ nat (j - ?k))"
    using assms(2) by (simp add: power_int_def)
  have "a / 2 powi ?k \<le> of_int n * 2 powi (j - ?k)"
    using assms(1) pow2_pos [of ?k] by (simp add: split field_simps)
  then have "a / 2 powi ?k \<le> of_int (n * 2 ^ nat (j - ?k))" by (simp add: int)
  then have "nearest_even (a / 2 powi ?k) \<le> n * 2 ^ nat (j - ?k)" by (rule nearest_even_le)
  then have "(of_int (nearest_even (a / 2 powi ?k)) :: rat) \<le> of_int (n * 2 ^ nat (j - ?k))"
    by (simp only: of_int_le_iff)
  then have "of_int (nearest_even (a / 2 powi ?k)) * 2 powi ?k
      \<le> (of_int (n * 2 ^ nat (j - ?k)) :: rat) * 2 powi ?k"
    using pow2_pos [of ?k] by (simp only: mult_le_cancel_right_pos)
  also have "\<dots> = of_int n * 2 powi j" by (simp add: split int)
  finally show ?thesis by (simp add: round_magnitude_def)
qed

lemma round_magnitude_ge_multiple:
  assumes "of_int n * 2 powi j \<le> a" and "ulp_exponent a \<le> j"
  shows "of_int n * 2 powi j \<le> round_magnitude a"
proof -
  let ?k = "ulp_exponent a"
  have split: "(2::rat) powi j = 2 powi (j - ?k) * 2 powi ?k"
    by (simp flip: power_int_add)
  have int: "(2::rat) powi (j - ?k) = of_int (2 ^ nat (j - ?k))"
    using assms(2) by (simp add: power_int_def)
  have "of_int n * 2 powi (j - ?k) \<le> a / 2 powi ?k"
    using assms(1) pow2_pos [of ?k] by (simp add: split field_simps)
  then have "of_int (n * 2 ^ nat (j - ?k)) \<le> a / 2 powi ?k" by (simp add: int)
  then have "n * 2 ^ nat (j - ?k) \<le> nearest_even (a / 2 powi ?k)" by (rule nearest_even_ge)
  then have "(of_int (n * 2 ^ nat (j - ?k)) :: rat) \<le> of_int (nearest_even (a / 2 powi ?k))"
    by (simp only: of_int_le_iff)
  then have "(of_int (n * 2 ^ nat (j - ?k)) :: rat) * 2 powi ?k
      \<le> of_int (nearest_even (a / 2 powi ?k)) * 2 powi ?k"
    using pow2_pos [of ?k] by (simp only: mult_le_cancel_right_pos)
  moreover have "(of_int (n * 2 ^ nat (j - ?k)) :: rat) * 2 powi ?k = of_int n * 2 powi j"
    by (simp add: split int)
  ultimately have "of_int n * 2 powi j \<le> (of_int (nearest_even (a / 2 powi ?k)) :: rat) * 2 powi ?k"
    by (simp only:)
  then show ?thesis by (simp only: round_magnitude_def)
qed

lemma round_magnitude_mono:
  assumes "0 < x" and "x \<le> y"
  shows "round_magnitude x \<le> round_magnitude y"
proof (cases "ulp_exponent x = ulp_exponent y")
  case True
  have "x / 2 powi ulp_exponent y \<le> y / 2 powi ulp_exponent y"
    using assms(2) pow2_pos [of "ulp_exponent y"] by (intro divide_right_mono) simp_all
  then have "nearest_even (x / 2 powi ulp_exponent y) \<le> nearest_even (y / 2 powi ulp_exponent y)"
    by (rule nearest_even_mono)
  then have "(of_int (nearest_even (x / 2 powi ulp_exponent y)) :: rat)
      \<le> of_int (nearest_even (y / 2 powi ulp_exponent y))" by (simp only: of_int_le_iff)
  then show ?thesis
    using pow2_pos [of "ulp_exponent y"] by (simp add: round_magnitude_def True)
next
  case False
  let ?e = "binary_exponent y"
  have y: "0 < y" using assms by simp
  have less: "ulp_exponent x < ulp_exponent y"
    using False ulp_exponent_mono [OF assms] by simp
  then have ky: "ulp_exponent y = ?e - 52"
    by (simp add: ulp_exponent_def max_def split: if_splits)
  have ex: "binary_exponent x < ?e"
    using less by (simp add: ulp_exponent_def max_def split: if_splits)
  have kx: "ulp_exponent x \<le> ?e" using less ky by simp
  have "x < 2 powi (binary_exponent x + 1)" using binary_exponent_bounds [OF assms(1)] by simp
  also have "\<dots> \<le> 2 powi ?e" using ex by (intro power_int_increasing) simp_all
  finally have "x \<le> of_int 1 * 2 powi ?e" by simp
  then have "round_magnitude x \<le> of_int 1 * 2 powi ?e"
    using kx by (rule round_magnitude_le_multiple)
  moreover have "of_int 1 * 2 powi ?e \<le> y" using binary_exponent_bounds [OF y] by simp
  then have "of_int 1 * 2 powi ?e \<le> round_magnitude y"
    by (rule round_magnitude_ge_multiple) (simp add: ky)
  ultimately show ?thesis by linarith
qed

lemma round_double_pos:
  "0 < x \<Longrightarrow> round_double x = (if 2 ^ 1024 \<le> round_magnitude x then PosInf else Fin (round_magnitude x))"
  by (simp add: round_double_def)

lemma round_double_neg:
  "x < 0 \<Longrightarrow> round_double x
     = (if 2 ^ 1024 \<le> round_magnitude (- x) then NegInf else Fin (- round_magnitude (- x)))"
  by (simp add: round_double_def)

lemma round_double_upper:
  assumes "0 \<le> x" and "x \<le> b" and "round_double b = Fin b"
  shows "\<exists>y. round_double x = Fin y \<and> 0 \<le> y \<and> y \<le> b"
proof (cases "x = 0")
  case True
  with assms show ?thesis by (simp add: round_double_def)
next
  case False
  then have x: "0 < x" using assms(1) by simp
  then have b: "0 < b" using assms(2) by simp
  from assms(3) have rb: "round_magnitude b = b" and fin: "\<not> 2 ^ 1024 \<le> round_magnitude b"
    by (simp_all add: round_double_pos [OF b] split: if_splits)
  have le: "round_magnitude x \<le> b" using round_magnitude_mono [OF x assms(2)] rb by simp
  then have "\<not> 2 ^ 1024 \<le> round_magnitude x" using fin rb by simp
  then have "round_double x = Fin (round_magnitude x)" by (simp add: round_double_pos [OF x])
  then show ?thesis using le round_magnitude_nonneg [OF x] by simp
qed

lemma round_double_lower:
  assumes "0 < b" and "b \<le> x" and "round_double b = Fin b"
  shows "round_double x = PosInf \<or> (\<exists>y. round_double x = Fin y \<and> b \<le> y)"
proof -
  have x: "0 < x" using assms by simp
  from assms(3) have rb: "round_magnitude b = b"
    by (simp_all add: round_double_pos [OF assms(1)] split: if_splits)
  have "b \<le> round_magnitude x" using round_magnitude_mono [OF assms(1,2)] rb by simp
  then show ?thesis by (simp add: round_double_pos [OF x])
qed

lemma round_double_negative:
  assumes "x < 0"
  shows "round_double x = NegInf \<or> (\<exists>y. round_double x = Fin y \<and> y \<le> 0)"
  using assms round_magnitude_nonneg [of "- x"] by (simp add: round_double_neg)

text \<open>Evaluation at concrete numbers.\<close>

lemma floor_numeral_divide_rat:
  "\<lfloor>numeral a / numeral b :: rat\<rfloor> = numeral a div numeral b"
  by (metis floor_divide_of_int_eq of_int_numeral)

lemma ceiling_numeral_divide_rat:
  "\<lceil>numeral a / numeral b :: rat\<rceil> = - (- numeral a div numeral b)"
  by (metis ceiling_divide_eq_div of_int_numeral)

lemmas rounding = round_double_def round_magnitude_def ulp_exponent_def binary_exponent_def
  nearest_even_def Let_def log2_floor_small log2_floor_large floor_numeral_divide_rat
  ceiling_numeral_divide_rat

lemma round_double_minus: "round_double (- x) = js_negate (round_double x)"
  by (simp add: round_double_def)

section \<open>Digits, rendering and reading back\<close>

lemma digit_val_digit_char: "d < 10 \<Longrightarrow> digit_val (digit_char d) = Some d"
proof -
  assume "d < 10"
  then consider "d = 0" | "d = 1" | "d = 2" | "d = 3" | "d = 4" | "d = 5" | "d = 6" | "d = 7"
    | "d = 8" | "d = 9" by atomize_elim arith
  then show ?thesis by cases (simp_all add: digit_val_def digit_char_def)
qed

lemma digit_val_signs:
  "digit_val (CHR ''.'') = None" "digit_val (CHR ''-'') = None" "digit_val (CHR ''+'') = None"
  by (simp_all add: digit_val_def)

lemma digits_of_small: "n < 10 \<Longrightarrow> digits_of n = [digit_char n]"
  by (subst digits_of.simps) simp

lemma digits_of_large:
  "\<not> n < 10 \<Longrightarrow> digits_of n = digits_of (n div 10) @ [digit_char (n mod 10)]"
  by (subst digits_of.simps) simp

lemma digits_val_append:
  "digits_val acc (xs @ ys) = (case digits_val acc xs of None \<Rightarrow> None | Some a \<Rightarrow> digits_val a ys)"
  by (induction xs arbitrary: acc) (auto split: option.splits)

lemma digits_val_digits_of: "digits_val 0 (digits_of n) = Some n"
proof (induction n rule: digits_of.induct)
  case (1 n)
  show ?case
  proof (cases "n < 10")
    case True
    then show ?thesis by (simp add: digits_of_small digit_val_digit_char)
  next
    case False
    with 1 have "digits_val 0 (digits_of (n div 10)) = Some (n div 10)" by simp
    moreover have "digit_val (digit_char (n mod 10)) = Some (n mod 10)"
      by (simp add: digit_val_digit_char)
    ultimately show ?thesis using False
      by (simp add: digits_of_large digits_val_append)
  qed
qed

lemma digits_of_digits: "c \<in> set (digits_of n) \<Longrightarrow> \<exists>d. digit_val c = Some d"
proof (induction n rule: digits_of.induct)
  case (1 n)
  show ?case
  proof (cases "n < 10")
    case True
    with 1(2) show ?thesis by (simp add: digits_of_small digit_val_digit_char)
  next
    case False
    have "digit_val (digit_char (n mod 10)) = Some (n mod 10)"
      by (simp add: digit_val_digit_char)
    with 1 False show ?thesis
      by (auto simp add: digits_of_large)
  qed
qed

lemma digits_of_no_point: "c \<in> set (digits_of n) \<Longrightarrow> c \<noteq> CHR ''.''"
  using digits_of_digits [of c n] by (auto simp add: digit_val_signs)

lemma digits_of_nonempty: "digits_of n \<noteq> []"
  by (cases "n < 10") (simp_all add: digits_of_small digits_of_large)

lemma digits_of_hd:
  "\<exists>c cs. digits_of n = c # cs \<and> c \<noteq> CHR ''-'' \<and> c \<noteq> CHR ''+'' \<and> c \<noteq> CHR ''I''"
proof -
  obtain c cs where e: "digits_of n = c # cs"
    using digits_of_nonempty [of n] by (cases "digits_of n") auto
  then have "c \<in> set (digits_of n)" by simp
  then obtain d where "digit_val c = Some d" using digits_of_digits by blast
  then have "c \<noteq> CHR ''-'' \<and> c \<noteq> CHR ''+'' \<and> c \<noteq> CHR ''I''"
    by (auto simp add: digit_val_def)
  with e show ?thesis by blast
qed

lemma unsigned_decimal_fixed:
  assumes "d1 < 10" "d2 < 10"
  shows "unsigned_decimal (digits_of a @ ''.'' @ [digit_char d1, digit_char d2])
     = Some (of_nat a + of_nat (10 * d1 + d2) / 100)"
proof -
  let ?fp = "[digit_char d1, digit_char d2]"
  have tw: "takeWhile (\<lambda>c. c \<noteq> CHR ''.'') (digits_of a @ ''.'' @ ?fp) = digits_of a"
    by (simp add: digits_of_no_point)
  have dw: "dropWhile (\<lambda>c. c \<noteq> CHR ''.'') (digits_of a @ ''.'' @ ?fp) = ''.'' @ ?fp"
    by (simp add: digits_of_no_point)
  have fp: "digits_val 0 ?fp = Some (10 * d1 + d2)"
    using assms by (simp add: digit_val_digit_char)
  show ?thesis
    unfolding unsigned_decimal_def Let_def tw dw
    by (simp add: digits_val_digits_of fp digits_of_nonempty del: digits_val.simps)
qed

lemma hundredths_split: "100 * (n div 100) + (10 * (n mod 100 div 10) + n mod 10) = (n::nat)"
proof -
  have "n mod 100 mod 10 = n mod 10" by (simp add: mod_mod_cancel)
  then have "10 * (n mod 100 div 10) + n mod 10 = n mod 100"
    using mult_div_mod_eq [of 10 "n mod 100"] by simp
  then show ?thesis by simp
qed

lemma unsigned_decimal_fixed2_digits:
  "unsigned_decimal (fixed2_digits x) = Some (of_nat (nat \<lfloor>x * 100 + 1 / 2\<rfloor>) / 100)"
proof -
  define n where "n = nat \<lfloor>x * 100 + 1 / 2\<rfloor>"
  have "unsigned_decimal (fixed2_digits x)
      = Some (of_nat (n div 100) + of_nat (10 * (n mod 100 div 10) + n mod 10) / 100)"
    unfolding fixed2_digits_def Let_def n_def [symmetric]
    by (rule unsigned_decimal_fixed) simp_all
  also have "(of_nat (n div 100) + of_nat (10 * (n mod 100 div 10) + n mod 10) / 100 :: rat)
      = of_nat (100 * (n div 100) + (10 * (n mod 100 div 10) + n mod 10)) / 100"
    by (simp add: field_simps)
  also have "\<dots> = of_nat n / 100" by (simp only: hundredths_split)
  finally show ?thesis by (simp add: n_def)
qed

lemma unsigned_number_fixed2_digits:
  "unsigned_number (fixed2_digits x) = round_double (of_nat (nat \<lfloor>x * 100 + 1 / 2\<rfloor>) / 100)"
proof -
  obtain c cs where "digits_of (nat \<lfloor>x * 100 + 1 / 2\<rfloor> div 100) = c # cs" and "c \<noteq> CHR ''I''"
    using digits_of_hd by blast
  then have "fixed2_digits x \<noteq> ''Infinity''"
    by (auto simp add: fixed2_digits_def Let_def)
  then show ?thesis by (simp add: unsigned_number_def unsigned_decimal_fixed2_digits)
qed

lemma StringToNumber_fixed2_digits:
  "StringToNumber (fixed2_digits x) = round_double (of_nat (nat \<lfloor>x * 100 + 1 / 2\<rfloor>) / 100)"
proof -
  obtain c cs where e: "digits_of (nat \<lfloor>x * 100 + 1 / 2\<rfloor> div 100) = c # cs"
    and c: "c \<noteq> CHR ''-''" "c \<noteq> CHR ''+''"
    using digits_of_hd by blast
  then obtain cs' where e': "fixed2_digits x = c # cs'"
    by (simp add: fixed2_digits_def Let_def)
  have "StringToNumber (c # cs') = unsigned_number (c # cs')"
    using c by (simp add: StringToNumber_def)
  then show ?thesis
    using unsigned_number_fixed2_digits [of x] by (simp add: e')
qed

lemma StringToNumber_minus_fixed2_digits:
  "StringToNumber (CHR ''-'' # fixed2_digits x)
     = js_negate (round_double (of_nat (nat \<lfloor>x * 100 + 1 / 2\<rfloor>) / 100))"
  by (simp add: StringToNumber_def unsigned_number_fixed2_digits)

lemma ToNumber_fixed2_nonneg:
  "0 \<le> x \<Longrightarrow> ToNumber (fixed2 x) =
     (if 10 ^ 21 \<le> x then Fin x else round_double (of_int \<lfloor>x * 100 + 1 / 2\<rfloor> / 100))"
proof -
  assume x: "0 \<le> x"
  then have "0 \<le> \<lfloor>x * 100 + 1 / 2\<rfloor>" by simp
  then have "(of_nat (nat \<lfloor>x * 100 + 1 / 2\<rfloor>) :: rat) = of_int \<lfloor>x * 100 + 1 / 2\<rfloor>"
    by simp
  with x show ?thesis by (simp add: fixed2_def StringToNumber_fixed2_digits)
qed

text \<open>Rules that evaluate a rendering, and a reading, at a concrete number.\<close>

lemmas render = fixed2_def fixed2_digits_def Let_def digits_of_small digits_of_large
  digit_char_def utilization_def rounding

lemmas reading = StringToNumber_def unsigned_number_def unsigned_decimal_def digit_val_def
  rounding

section \<open>Properties of the bundle analysis\<close>

lemma add_ranges_sum:
  "add_ranges rs used = used + sum_list (map (\<lambda>r. range_end r - range_start r) rs)"
  unfolding add_ranges_def by (induction rs arbitrary: used) simp_all

lemma ranges_within_sum:
  "ranges_within lo hi rs \<Longrightarrow>
     0 \<le> sum_list (map (\<lambda>r. range_end r - range_start r) rs)
     \<and> sum_list (map (\<lambda>r. range_end r - range_start r) rs) \<le> hi - lo"
proof (induction rs arbitrary: lo)
  case Nil
  then show ?case by simp
next
  case (Cons r rs)
  from Cons.prems have "ranges_within (range_end r) hi rs" and "lo \<le> range_start r"
    and "range_start r \<le> range_end r" by simp_all
  with Cons.IH [of "range_end r"] show ?case by simp
qed

lemma add_coverage_Cons:
  "add_coverage (c # cov) (t, u) =
     add_coverage cov (t + int (length (entry_text c)), add_ranges (ranges c) u)"
  by (simp add: add_coverage_def)

lemma add_coverage_Nil: "add_coverage [] acc = acc"
  by (simp add: add_coverage_def)

lemma add_coverage_bounds:
  "list_all disjoint_coverage cov \<Longrightarrow> add_coverage cov (t, u) = (t', u') \<Longrightarrow>
     t \<le> t' \<and> u \<le> u' \<and> u' - u \<le> t' - t"
proof (induction cov arbitrary: t u)
  case Nil
  then show ?case by (simp add: add_coverage_Nil)
next
  case (Cons c cov)
  let ?d = "sum_list (map (\<lambda>r. range_end r - range_start r) (ranges c))"
  from Cons.prems(1) have c: "disjoint_coverage c" and rest: "list_all disjoint_coverage cov"
    by simp_all
  from c have d: "0 \<le> ?d \<and> ?d \<le> int (length (entry_text c))"
    using ranges_within_sum [of 0 "int (length (entry_text c))" "ranges c"]
    by (simp add: disjoint_coverage_def)
  from Cons.prems(2)
  have "add_coverage cov (t + int (length (entry_text c)), u + ?d) = (t', u')"
    by (simp add: add_coverage_Cons add_ranges_sum)
  from Cons.IH [OF rest this] d show ?case by linarith
qed

lemma add_coverage_from_zero:
  assumes "list_all disjoint_coverage cov"
  shows "\<exists>t u. add_coverage cov (0, 0) = (t, u) \<and> 0 \<le> u \<and> u \<le> t"
proof -
  obtain t u where e: "add_coverage cov (0, 0) = (t, u)" by (cases "add_coverage cov (0, 0)")
  from add_coverage_bounds [OF assms e] e show ?thesis by simp
qed

lemma utilization_range:
  assumes "0 \<le> u" "u \<le> t" "0 < t"
  shows "\<exists>y. utilization u t = Fin y \<and> 0 \<le> y \<and> y \<le> 100"
proof -
  have one: "round_double 1 = Fin 1" by (simp add: rounding)
  have hundred: "round_double 100 = Fin 100" by (simp add: rounding)
  have x0: "0 \<le> (of_int u / of_int t :: rat)" using assms by simp
  have "(of_int u :: rat) \<le> of_int t" using assms by simp
  then have x1: "(of_int u / of_int t :: rat) \<le> 1" using assms by (simp add: divide_le_eq)
  obtain q where q: "round_double (of_int u / of_int t) = Fin q" "0 \<le> q" "q \<le> 1"
    using round_double_upper [OF x0 x1 one] by blast
  have "0 \<le> q * 100" "q * 100 \<le> 100" using q by simp_all
  then obtain y where y: "round_double (q * 100) = Fin y" "0 \<le> y" "y \<le> 100"
    using round_double_upper [OF _ _ hundred] by blast
  have "utilization u t = Fin y" by (simp add: utilization_def q y)
  with y show ?thesis by simp
qed

lemma rate_of_fraction:
  assumes "0 \<le> u" "u \<le> t" "0 < t"
  shows "\<exists>p. ToNumber (toFixed2 (utilization u t)) = Fin p \<and> 0 \<le> p \<and> p \<le> 100"
proof -
  have hundred: "round_double 100 = Fin 100" by (simp add: rounding)
  obtain y where y: "utilization u t = Fin y" "0 \<le> y" "y \<le> 100"
    using utilization_range [OF assms] by blast
  have small: "\<not> 10 ^ 21 \<le> y" using y by simp
  let ?n = "\<lfloor>y * 100 + 1 / 2\<rfloor>"
  have n0: "0 \<le> ?n" using y by simp
  have "y * 100 + 1 / 2 < 10001" using y by simp
  then have "?n < 10001" by (simp add: floor_less_iff)
  then have n1: "?n \<le> 10000" by simp
  have r: "ToNumber (toFixed2 (utilization u t)) = round_double (of_int ?n / 100)"
    using ToNumber_fixed2_nonneg [OF y(2)] small by (simp add: y)
  have lo: "(0::rat) \<le> of_int ?n / 100" using n0 by simp
  have "(of_int ?n :: rat) \<le> of_int 10000" using n1 by (simp only: of_int_le_iff)
  then have hi: "(of_int ?n :: rat) / 100 \<le> 100" by simp
  from round_double_upper [OF lo hi hundred] r show ?thesis by simp
qed

lemma stat_of_invariants:
  assumes "0 \<le> u" "u \<le> t"
  shows "usedSize (stat_of (t, u)) \<le> totalSize (stat_of (t, u))
    \<and> 0 \<le> unusedSize (stat_of (t, u))
    \<and> (\<exists>p. ToNumber (utilizationRate (stat_of (t, u))) = Fin p \<and> 0 \<le> p \<and> p \<le> 100)
    \<and> (totalSize (stat_of (t, u)) = 0 \<longrightarrow> utilizationRate (stat_of (t, u)) = JNumber 0)"
proof (cases "0 < t")
  case True
  with rate_of_fraction [OF assms True] assms show ?thesis by (simp add: stat_of_def)
next
  case False
  with assms show ?thesis by (simp add: stat_of_def)
qed

text \<open>
  Claim C1, as the code has it. For coverage lists whose entries have ascending,
  non-overlapping ranges inside their text, both the javascript and the css statistics of
  \<^verbatim>\<open>analyzeBundleSize\<close> satisfy: the used size is at most the total size, the unused size
  is not negative, the utilization rate reads as a number between 0 and 100, and when the
  total size is 0 the utilization rate is the number 0.
\<close>

theorem analyzeBundleSize_invariants:
  assumes "list_all disjoint_coverage js" and "list_all disjoint_coverage cs"
    and "s = javascript (analyzeBundleSize js cs) \<or> s = css (analyzeBundleSize js cs)"
  shows "usedSize s \<le> totalSize s \<and> 0 \<le> unusedSize s
    \<and> (\<exists>p. ToNumber (utilizationRate s) = Fin p \<and> 0 \<le> p \<and> p \<le> 100)
    \<and> (totalSize s = 0 \<longrightarrow> utilizationRate s = JNumber 0)"
proof -
  obtain t u where j: "add_coverage js (0, 0) = (t, u)" "0 \<le> u" "u \<le> t"
    using add_coverage_from_zero [OF assms(1)] by blast
  obtain t' u' where c: "add_coverage cs (0, 0) = (t', u')" "0 \<le> u'" "u' \<le> t'"
    using add_coverage_from_zero [OF assms(2)] by blast
  from assms(3) have "s = stat_of (t, u) \<or> s = stat_of (t', u')"
    by (simp add: analyzeBundleSize_def j c)
  then show ?thesis
    using stat_of_invariants [OF j(2,3)] stat_of_invariants [OF c(2,3)] by blast
qed

theorem analyzeBundleSize_invariants_witness:
  "list_all disjoint_coverage sample_js_coverage \<and> list_all disjoint_coverage sample_css_coverage
   \<and> usedSize (javascript (analyzeBundleSize sample_js_coverage sample_css_coverage))
       \<le> totalSize (javascript (analyzeBundleSize sample_js_coverage sample_css_coverage))
   \<and> 0 \<le> unusedSize (javascript (analyzeBundleSize sample_js_coverage sample_css_coverage))
   \<and> (\<exists>p. ToNumber (utilizationRate
              (javascript (analyzeBundleSize sample_js_coverage sample_css_coverage))) = Fin p
          \<and> 0 \<le> p \<and> p \<le> 100)"
proof -
  have js: "list_all disjoint_coverage sample_js_coverage"
    by (simp add: sample_js_coverage_def disjoint_coverage_def)
  have cs: "list_all disjoint_coverage sample_css_coverage"
    by (simp add: sample_css_coverage_def disjoint_coverage_def)
  from analyzeBundleSize_invariants [OF js cs disjI1 [OF refl]] js cs
  show ?thesis by blast
qed

text \<open>
  The claim as stated, for every pair of coverage lists, fails: with two overlapping
  ranges the used size 6 exceeds the total size 4, the unused size is -2 and the
  utilization rate is the string \<^verbatim>\<open>150.00\<close>.
\<close>

theorem analyzeBundleSize_overlapping:
  "\<not> usedSize (javascript (analyzeBundleSize overlapping_coverage []))
       \<le> totalSize (javascript (analyzeBundleSize overlapping_coverage []))
   \<and> unusedSize (javascript (analyzeBundleSize overlapping_coverage [])) = - 2
   \<and> utilizationRate (javascript (analyzeBundleSize overlapping_coverage [])) = JString ''150.00''
   \<and> ToNumber (utilizationRate (javascript (analyzeBundleSize overlapping_coverage []))) = Fin 150"
  by (simp add: analyzeBundleSize_def overlapping_coverage_def stat_of_def add_coverage_def
      add_ranges_def render reading)

section \<open>Properties of the scoring\<close>

lemma pageScore_le: "pageScore r \<le> 100"
  by (simp add: pageScore_def Let_def)

lemma totalScore_single: "totalScore [r] = max 0 (pageScore r)"
  by (simp add: totalScore_def)

lemma floor_half: "\<lfloor>1 / 2 :: rat\<rfloor> = 0"
  by (simp add: floor_eq_iff)

lemma round_int: "math_round (js_div (of_int m) (of_nat (Suc 0))) = Fin (of_int m)"
  by (simp add: js_div_def floor_half)

lemma calculateOverallScore_single:
  "calculateOverallScore [r] = Fin (of_int (max 0 (pageScore r)))"
  unfolding calculateOverallScore_def totalScore_single using round_int by simp

text \<open>
  Claim C4. A page result with load time 4000, javascript utilization 40, css utilization
  70, neither LCP nor FID present and at most 100 resources scores 65, and its
  recommendations are exactly two: low JavaScript utilization and slow loading time. The
  utilization may be held as a number or as a string: what counts is the number it reads as.
\<close>

theorem score_4000:
  assumes "loadTime r = 4000"
    and "ToNumber (utilizationRate (javascript (bundleAnalysis r))) = Fin 40"
    and "ToNumber (utilizationRate (css (bundleAnalysis r))) = Fin 70"
    and "webVitals r ''LCP'' = None" and "webVitals r ''FID'' = None"
    and "totalResources (resourceMetrics r) \<le> 100"
  shows "max 0 (pageScore r) = 65 \<and> calculateOverallScore [r] = Fin 65
    \<and> recommendations r = [LowJavaScriptUtilization, SlowLoadingTime]"
proof -
  have p: "pageScore r = 65"
    using assms by (simp add: pageScore_def Let_def js_less_def vital_exceeds_def)
  have "recommendations r = [LowJavaScriptUtilization, SlowLoadingTime]"
    using assms by (simp add: recommendations_def Let_def js_less_def vital_exceeds_def)
  with p calculateOverallScore_single [of r] show ?thesis by simp
qed

theorem score_4000_witness:
  "loadTime sample_result = 4000
   \<and> utilizationRate (javascript (bundleAnalysis sample_result)) = JString ''40.00''
   \<and> utilizationRate (css (bundleAnalysis sample_result)) = JString ''70.00''
   \<and> max 0 (pageScore sample_result) = 65 \<and> calculateOverallScore [sample_result] = Fin 65
   \<and> recommendations sample_result = [LowJavaScriptUtilization, SlowLoadingTime]"
proof -
  have js: "ToNumber (utilizationRate (javascript (bundleAnalysis sample_result))) = Fin 40"
    by (simp add: sample_result_def reading)
  have cs: "ToNumber (utilizationRate (css (bundleAnalysis sample_result))) = Fin 70"
    by (simp add: sample_result_def reading)
  have "max 0 (pageScore sample_result) = 65 \<and> calculateOverallScore [sample_result] = Fin 65
    \<and> recommendations sample_result = [LowJavaScriptUtilization, SlowLoadingTime]"
    by (rule score_4000 [OF _ js cs]) (simp_all add: sample_result_def)
  then show ?thesis by (simp add: sample_result_def)
qed

text \<open>
  Claim C5. A page result with load time 6000, javascript and css utilization 80, an LCP
  of 3000 and an FID of 150 scores 5: both load time deductions (20 and 30) apply, with
  25 for the LCP and 20 for the FID.
\<close>

theorem score_6000:
  assumes "loadTime r = 6000"
    and "ToNumber (utilizationRate (javascript (bundleAnalysis r))) = Fin 80"
    and "ToNumber (utilizationRate (css (bundleAnalysis r))) = Fin 80"
    and "webVitals r ''LCP'' = Some lcp" and "vital_value lcp = 3000"
    and "webVitals r ''FID'' = Some fid" and "vital_value fid = 150"
  shows "pageScore r = 100 - 20 - 30 - 25 - 20 \<and> max 0 (pageScore r) = 5
    \<and> calculateOverallScore [r] = Fin 5"
proof -
  have p: "pageScore r = 5"
    using assms by (simp add: pageScore_def Let_def js_less_def vital_exceeds_def)
  with calculateOverallScore_single [of r] show ?thesis by simp
qed

theorem score_6000_witness:
  "loadTime slow_result = 6000
   \<and> utilizationRate (javascript (bundleAnalysis slow_result)) = JString ''80.00''
   \<and> utilizationRate (css (bundleAnalysis slow_result)) = JString ''80.00''
   \<and> max 0 (pageScore slow_result) = 5 \<and> calculateOverallScore [slow_result] = Fin 5"
proof -
  have js: "ToNumber (utilizationRate (javascript (bundleAnalysis slow_result))) = Fin 80"
    by (simp add: slow_result_def reading)
  have cs: "ToNumber (utilizationRate (css (bundleAnalysis slow_result))) = Fin 80"
    by (simp add: slow_result_def reading)
  have lcp: "webVitals slow_result ''LCP''
      = Some \<lparr>vital_value = 3000, rating = ''needs-improvement''\<rparr>"
    by (simp add: slow_result_def)
  have fid: "webVitals slow_result ''FID''
      = Some \<lparr>vital_value = 150, rating = ''needs-improvement''\<rparr>"
    by (simp add: slow_result_def)
  have "pageScore slow_result = 100 - 20 - 30 - 25 - 20 \<and> max 0 (pageScore slow_result) = 5
    \<and> calculateOverallScore [slow_result] = Fin 5"
    by (rule score_6000 [OF _ js cs lcp _ fid]) (simp_all add: slow_result_def)
  then show ?thesis by (simp add: slow_result_def)
qed

text \<open>
  Claim C6. For every page result the score that enters the total, \<^verbatim>\<open>Math.max(0, pageScore)\<close>,
  lies between 0 and 100, and it is what \<^verbatim>\<open>calculateOverallScore\<close> returns for that page
  alone. Score and recommendations are functions of the page result: identical results
  give the identical score, recommendation list and recommendation text.
\<close>

theorem score_range:
  "0 \<le> max 0 (pageScore r) \<and> max 0 (pageScore r) \<le> 100
   \<and> calculateOverallScore [r] = Fin (of_int (max 0 (pageScore r)))
   \<and> (r' = r \<longrightarrow> max 0 (pageScore r') = max 0 (pageScore r)
          \<and> recommendations r' = recommendations r
          \<and> generateRecommendations r' = generateRecommendations r)"
  using pageScore_le [of r] calculateOverallScore_single [of r] by simp

theorem score_range_witness:
  "0 \<le> max 0 (pageScore slow_result) \<and> max 0 (pageScore slow_result) \<le> 100
   \<and> calculateOverallScore [slow_result] = Fin (of_int (max 0 (pageScore slow_result)))
   \<and> recommendations slow_result = recommendations slow_result"
  using score_range [of slow_result slow_result] by simp

section \<open>Properties of the resource classification\<close>

text \<open>
  Claim C8. A URL that ends in \<^verbatim>\<open>.woff2\<close> is classified as \<^verbatim>\<open>fonts\<close>, one that ends in
  \<^verbatim>\<open>.module.css\<close> as \<^verbatim>\<open>stylesheets\<close>, and one that matches none of the four extension
  patterns as \<^verbatim>\<open>other\<close>; the result is always one of the five categories.
\<close>

theorem getResourceType_cases:
  "(suffix ''.woff2'' u \<longrightarrow> getResourceType u = ''fonts'')
   \<and> (suffix ''.module.css'' u \<longrightarrow> getResourceType u = ''stylesheets'')
   \<and> (\<not> matches_extension u [''js'', ''jsx'', ''ts'', ''tsx'']
        \<and> \<not> matches_extension u [''css'', ''scss'', ''sass'']
        \<and> \<not> matches_extension u [''jpg'', ''jpeg'', ''png'', ''gif'', ''webp'', ''avif'', ''svg'']
        \<and> \<not> matches_extension u [''woff'', ''woff2'', ''ttf'', ''otf'', ''eot'']
       \<longrightarrow> getResourceType u = ''other'')
   \<and> getResourceType u \<in> {''scripts'', ''stylesheets'', ''images'', ''fonts'', ''other''}"
proof (intro conjI impI)
  assume w: "suffix ''.woff2'' u"
  then obtain p where "u = p @ ''.woff2''" by (auto simp add: suffix_def)
  then show "getResourceType u = ''fonts''"
    by (simp add: getResourceType_def matches_extension_def suffix_to_prefix)
next
  assume c: "suffix ''.module.css'' u"
  then obtain p where "u = p @ ''.module.css''" by (auto simp add: suffix_def)
  then show "getResourceType u = ''stylesheets''"
    by (simp add: getResourceType_def matches_extension_def suffix_to_prefix)
next
  assume "\<not> matches_extension u [''js'', ''jsx'', ''ts'', ''tsx'']
        \<and> \<not> matches_extension u [''css'', ''scss'', ''sass'']
        \<and> \<not> matches_extension u [''jpg'', ''jpeg'', ''png'', ''gif'', ''webp'', ''avif'', ''svg'']
        \<and> \<not> matches_extension u [''woff'', ''woff2'', ''ttf'', ''otf'', ''eot'']"
  then show "getResourceType u = ''other''" by (simp add: getResourceType_def)
next
  show "getResourceType u \<in> {''scripts'', ''stylesheets'', ''images'', ''fonts'', ''other''}"
    by (simp add: getResourceType_def)
qed

theorem getResourceType_cases_witness:
  "suffix ''.woff2'' ''/a.woff2'' \<and> getResourceType ''/a.woff2'' = ''fonts''
   \<and> suffix ''.module.css'' ''/b.module.css'' \<and> getResourceType ''/b.module.css'' = ''stylesheets''
   \<and> getResourceType ''/api/v1'' = ''other''"
proof -
  have w: "suffix ''.woff2'' ''/a.woff2''" by (simp add: suffix_to_prefix)
  have c: "suffix ''.module.css'' ''/b.module.css''" by (simp add: suffix_to_prefix)
  have n: "\<not> matches_extension ''/api/v1'' [''js'', ''jsx'', ''ts'', ''tsx'']
        \<and> \<not> matches_extension ''/api/v1'' [''css'', ''scss'', ''sass'']
        \<and> \<not> matches_extension ''/api/v1'' [''jpg'', ''jpeg'', ''png'', ''gif'', ''webp'', ''avif'', ''svg'']
        \<and> \<not> matches_extension ''/api/v1'' [''woff'', ''woff2'', ''ttf'', ''otf'', ''eot'']"
    by (simp add: matches_extension_def suffix_to_prefix)
  have a: "getResourceType ''/a.woff2'' = ''fonts''"
    using getResourceType_cases [of "''/a.woff2''", THEN conjunct1, THEN mp, OF w] .
  have b: "getResourceType ''/b.module.css'' = ''stylesheets''"
    using getResourceType_cases [of "''/b.module.css''", THEN conjunct2, THEN conjunct1, THEN mp, OF c] .
  have o: "getResourceType ''/api/v1'' = ''other''"
    using getResourceType_cases [of "''/api/v1''", THEN conjunct2, THEN conjunct2, THEN conjunct1,
        THEN mp, OF n] .
  show ?thesis by (intro conjI w a c b o)
qed

section \<open>The kind of the utilization rate\<close>

lemma is_digit_digit_char: "d < 10 \<Longrightarrow> is_digit (digit_char d)"
  by (simp add: is_digit_def digit_val_digit_char)

lemma list_all_digits_of: "list_all is_digit (digits_of n)"
  using digits_of_digits [of _ n] by (auto simp add: list_all_iff is_digit_def)

lemma two_fraction_digits_body:
  assumes "d1 < 10" "d2 < 10"
  shows "two_fraction_digits (digits_of a @ ''.'' @ [digit_char d1, digit_char d2])"
proof -
  let ?fp = "[digit_char d1, digit_char d2]"
  obtain c cs where e: "digits_of a = c # cs" and c: "c \<noteq> CHR ''-''"
    using digits_of_hd [of a] by blast
  have tw: "takeWhile (\<lambda>c. c \<noteq> CHR ''.'') (digits_of a @ ''.'' @ ?fp) = digits_of a"
    by (simp add: digits_of_no_point)
  have dw: "dropWhile (\<lambda>c. c \<noteq> CHR ''.'') (digits_of a @ ''.'' @ ?fp) = ''.'' @ ?fp"
    by (simp add: digits_of_no_point)
  have body: "(case digits_of a @ ''.'' @ ?fp of [] \<Rightarrow> [] | c # cs \<Rightarrow> if c = CHR ''-'' then cs
      else digits_of a @ ''.'' @ ?fp) = digits_of a @ ''.'' @ ?fp"
    using c by (simp add: e)
  show ?thesis
    unfolding two_fraction_digits_def Let_def body tw dw
    using assms by (simp add: digits_of_nonempty list_all_digits_of is_digit_digit_char)
qed

lemma two_fraction_digits_minus:
  assumes "d1 < 10" "d2 < 10"
  shows "two_fraction_digits (CHR ''-'' # digits_of a @ ''.'' @ [digit_char d1, digit_char d2])"
proof -
  let ?fp = "[digit_char d1, digit_char d2]"
  have tw: "takeWhile (\<lambda>c. c \<noteq> CHR ''.'') (digits_of a @ ''.'' @ ?fp) = digits_of a"
    by (simp add: digits_of_no_point)
  have dw: "dropWhile (\<lambda>c. c \<noteq> CHR ''.'') (digits_of a @ ''.'' @ ?fp) = ''.'' @ ?fp"
    by (simp add: digits_of_no_point)
  have body: "(case CHR ''-'' # digits_of a @ ''.'' @ ?fp of [] \<Rightarrow> [] | c # cs \<Rightarrow> if c = CHR ''-'' then cs
      else CHR ''-'' # digits_of a @ ''.'' @ ?fp) = digits_of a @ ''.'' @ ?fp"
    by simp
  show ?thesis
    unfolding two_fraction_digits_def Let_def body tw dw
    using assms by (simp add: digits_of_nonempty list_all_digits_of is_digit_digit_char)
qed

lemma two_fraction_digits_fixed2:
  "two_fraction_digits (fixed2_digits x)" "two_fraction_digits (CHR ''-'' # fixed2_digits x)"
  unfolding fixed2_digits_def Let_def
  by (rule two_fraction_digits_body two_fraction_digits_minus; simp)+

lemma fixed2_string:
  assumes "\<bar>x\<bar> < 10 ^ 21"
  shows "\<exists>str. fixed2 x = JString str \<and> two_fraction_digits str"
  using assms by (simp add: fixed2_def two_fraction_digits_fixed2)

lemma nearest_hundredth_multiple: "\<exists>m. nearest_hundredth x = of_int m / 100"
proof (cases "x < 0")
  case True
  then have "nearest_hundredth x = of_int (- \<lfloor>- x * 100 + 1 / 2\<rfloor>) / 100"
    by (simp add: nearest_hundredth_def)
  then show ?thesis by blast
next
  case False
  then have "nearest_hundredth x = of_int \<lfloor>x * 100 + 1 / 2\<rfloor> / 100"
    by (simp add: nearest_hundredth_def)
  then show ?thesis by blast
qed

lemma ToNumber_fixed2:
  assumes "\<bar>x\<bar> < 10 ^ 21"
  shows "ToNumber (fixed2 x) = round_double (nearest_hundredth x)"
proof (cases "x < 0")
  case True
  then have "0 \<le> \<lfloor>- x * 100 + 1 / 2\<rfloor>" by simp
  then have n: "(of_nat (nat \<lfloor>- x * 100 + 1 / 2\<rfloor>) :: rat) = of_int \<lfloor>- x * 100 + 1 / 2\<rfloor>"
    by simp
  have "ToNumber (fixed2 x) = js_negate (round_double (of_int \<lfloor>- x * 100 + 1 / 2\<rfloor> / 100))"
    using True assms by (simp add: fixed2_def StringToNumber_minus_fixed2_digits n)
  also have "\<dots> = round_double (- (of_int \<lfloor>- x * 100 + 1 / 2\<rfloor> / 100))"
    by (simp only: round_double_minus)
  finally show ?thesis using True by (simp add: nearest_hundredth_def)
next
  case False
  with assms ToNumber_fixed2_nonneg [of x] show ?thesis
    by (simp add: nearest_hundredth_def)
qed

text \<open>
  Comparing the double nearest to a multiple of one hundredth with a threshold that is
  itself a double and a multiple of one hundredth gives what comparing the multiple gives.
\<close>

lemma threshold_comparison:
  assumes c: "0 < c" and k: "c = of_int k / 100"
    and rc: "round_double c = Fin c"
    and rc': "round_double (c - 1 / 2 ^ 47) = Fin (c - 1 / 2 ^ 47)"
  shows "(case round_double (of_int m / 100) of Fin y \<Rightarrow> y < c | NegInf \<Rightarrow> True | _ \<Rightarrow> False)
     = (of_int m / 100 < c)"
proof -
  let ?q = "of_int m / 100 :: rat"
  consider "?q < 0" | "0 \<le> ?q" "?q < c" | "c \<le> ?q" by linarith
  then show ?thesis
  proof cases
    case 1
    with round_double_negative [OF 1] c show ?thesis by auto
  next
    case 2
    have "(of_int m :: rat) < of_int k" using 2(2) k by simp
    then have "m < k" by (simp only: of_int_less_iff)
    then have "m \<le> k - 1" by simp
    then have "(of_int m :: rat) \<le> of_int (k - 1)" by (simp only: of_int_le_iff)
    then have "?q \<le> c - 1 / 100" using k by simp
    moreover have "(1::rat) / 2 ^ 47 \<le> 1 / 100" by simp
    ultimately have le: "?q \<le> c - 1 / 2 ^ 47" by linarith
    obtain y where "round_double ?q = Fin y" "y \<le> c - 1 / 2 ^ 47"
      using round_double_upper [OF 2(1) le rc'] by blast
    moreover have "c - 1 / 2 ^ 47 < c" by simp
    ultimately show ?thesis using 2(2) by auto
  next
    case 3
    with round_double_lower [OF c 3 rc] show ?thesis by auto
  qed
qed

lemma js_less_fixed2:
  assumes "\<bar>x\<bar> < 10 ^ 21"
  shows "js_less (fixed2 x) 50 = (nearest_hundredth x < 50)"
    and "js_less (fixed2 x) 60 = (nearest_hundredth x < 60)"
proof -
  obtain m where m: "nearest_hundredth x = of_int m / 100"
    using nearest_hundredth_multiple by blast
  have r50: "round_double 50 = Fin 50" "round_double (50 - 1 / 2 ^ 47) = Fin (50 - 1 / 2 ^ 47)"
    by (simp_all add: rounding)
  have r60: "round_double 60 = Fin 60" "round_double (60 - 1 / 2 ^ 47) = Fin (60 - 1 / 2 ^ 47)"
    by (simp_all add: rounding)
  have t50: "(case round_double (of_int m / 100) of Fin y \<Rightarrow> y < 50 | NegInf \<Rightarrow> True | _ \<Rightarrow> False)
      = (of_int m / 100 < (50::rat))"
    by (rule threshold_comparison [where k = 5000, OF _ _ r50]) simp_all
  have t60: "(case round_double (of_int m / 100) of Fin y \<Rightarrow> y < 60 | NegInf \<Rightarrow> True | _ \<Rightarrow> False)
      = (of_int m / 100 < (60::rat))"
    by (rule threshold_comparison [where k = 6000, OF _ _ r60]) simp_all
  show "js_less (fixed2 x) 50 = (nearest_hundredth x < 50)"
    unfolding js_less_def ToNumber_fixed2 [OF assms] m by (rule t50)
  show "js_less (fixed2 x) 60 = (nearest_hundredth x < 60)"
    unfolding js_less_def ToNumber_fixed2 [OF assms] m by (rule t60)
qed

lemma stat_of_sizes: "totalSize (stat_of (t, u)) = t" "usedSize (stat_of (t, u)) = u"
  by (simp_all add: stat_of_def)

lemma stat_of_rate:
  "(0 < t \<and> utilization u t = Fin x \<and> \<bar>x\<bar> < 10 ^ 21 \<longrightarrow>
        (\<exists>str. utilizationRate (stat_of (t, u)) = JString str \<and> two_fraction_digits str)
      \<and> ToNumber (utilizationRate (stat_of (t, u))) = round_double (nearest_hundredth x)
      \<and> js_less (utilizationRate (stat_of (t, u))) 50 = (nearest_hundredth x < 50)
      \<and> js_less (utilizationRate (stat_of (t, u))) 60 = (nearest_hundredth x < 60))
   \<and> (0 < t \<and> 0 \<le> u \<and> u \<le> t \<longrightarrow> (\<exists>y. utilization u t = Fin y \<and> 0 \<le> y \<and> y \<le> 100))
   \<and> (t = 0 \<longrightarrow> utilizationRate (stat_of (t, u)) = JNumber 0)"
proof (intro conjI impI)
  assume a: "0 < t \<and> utilization u t = Fin x \<and> \<bar>x\<bar> < 10 ^ 21"
  then have r: "utilizationRate (stat_of (t, u)) = fixed2 x" by (simp add: stat_of_def)
  from a have b: "\<bar>x\<bar> < 10 ^ 21" by simp
  show "\<exists>str. utilizationRate (stat_of (t, u)) = JString str \<and> two_fraction_digits str"
    unfolding r by (rule fixed2_string [OF b])
  show "ToNumber (utilizationRate (stat_of (t, u))) = round_double (nearest_hundredth x)"
    unfolding r by (rule ToNumber_fixed2 [OF b])
  show "js_less (utilizationRate (stat_of (t, u))) 50 = (nearest_hundredth x < 50)"
    unfolding r by (rule js_less_fixed2 [OF b])
  show "js_less (utilizationRate (stat_of (t, u))) 60 = (nearest_hundredth x < 60)"
    unfolding r by (rule js_less_fixed2 [OF b])
next
  assume "0 < t \<and> 0 \<le> u \<and> u \<le> t"
  then show "\<exists>y. utilization u t = Fin y \<and> 0 \<le> y \<and> y \<le> 100"
    using utilization_range [of u t] by simp
next
  assume "t = 0"
  then show "utilizationRate (stat_of (t, u)) = JNumber 0" by (simp add: stat_of_def)
qed

text \<open>
  Claim C10, as the code has it. For each of the two statistics of \<^verbatim>\<open>analyzeBundleSize\<close>:
  when the total size is positive and the utilization, the double \<open>x\<close> that
  \<^verbatim>\<open>used / total * 100\<close> evaluates to, is below \<open>10\<^sup>2\<^sup>1\<close> in magnitude, \<^verbatim>\<open>utilizationRate\<close> is a
  string with exactly two fraction digits; read as a number it is the double nearest to
  the hundredth nearest to \<open>x\<close>, and the comparisons \<^verbatim>\<open>utilizationRate < 50\<close> and
  \<^verbatim>\<open>utilizationRate < 60\<close> of the scoring compare that hundredth with 50 and 60. The
  utilization is such a double, between 0 and 100, whenever the used size lies between 0
  and the total size. When the total size is 0, \<^verbatim>\<open>utilizationRate\<close> is the number 0, not a
  string.
\<close>

theorem utilizationRate_kind:
  assumes "s = javascript (analyzeBundleSize js cs) \<or> s = css (analyzeBundleSize js cs)"
  shows "(0 < totalSize s \<and> utilization (usedSize s) (totalSize s) = Fin x \<and> \<bar>x\<bar> < 10 ^ 21 \<longrightarrow>
            (\<exists>str. utilizationRate s = JString str \<and> two_fraction_digits str)
          \<and> ToNumber (utilizationRate s) = round_double (nearest_hundredth x)
          \<and> js_less (utilizationRate s) 50 = (nearest_hundredth x < 50)
          \<and> js_less (utilizationRate s) 60 = (nearest_hundredth x < 60))
       \<and> (0 < totalSize s \<and> 0 \<le> usedSize s \<and> usedSize s \<le> totalSize s \<longrightarrow>
            (\<exists>y. utilization (usedSize s) (totalSize s) = Fin y \<and> 0 \<le> y \<and> y \<le> 100))
       \<and> (totalSize s = 0 \<longrightarrow> utilizationRate s = JNumber 0)"
proof -
  obtain t u where s: "s = stat_of (t, u)"
    using assms by (cases "add_coverage js (0, 0)"; cases "add_coverage cs (0, 0)")
      (auto simp add: analyzeBundleSize_def)
  show ?thesis unfolding s stat_of_sizes by (rule stat_of_rate)
qed

theorem utilizationRate_kind_witness:
  "0 < totalSize (javascript (analyzeBundleSize near_half_coverage []))
   \<and> utilization (usedSize (javascript (analyzeBundleSize near_half_coverage [])))
        (totalSize (javascript (analyzeBundleSize near_half_coverage [])))
       = Fin (7036170730324623 / 140737488355328)
   \<and> \<bar>7036170730324623 / 140737488355328 :: rat\<bar> < 10 ^ 21
   \<and> utilizationRate (javascript (analyzeBundleSize near_half_coverage [])) = JString ''49.99''
   \<and> two_fraction_digits ''49.99''
   \<and> js_less (utilizationRate (javascript (analyzeBundleSize near_half_coverage []))) 50"
proof -
  let ?s = "javascript (analyzeBundleSize near_half_coverage [])"
  let ?x = "7036170730324623 / 140737488355328 :: rat"
  have sizes: "totalSize ?s = 20000" "usedSize ?s = 9999"
    by (simp_all add: analyzeBundleSize_def near_half_coverage_def stat_of_def add_coverage_def
        add_ranges_def)
  have u: "utilization 9999 20000 = Fin ?x"
    by (simp add: utilization_def rounding)
  have h: "0 < totalSize ?s \<and> utilization (usedSize ?s) (totalSize ?s) = Fin ?x
      \<and> \<bar>?x\<bar> < 10 ^ 21"
    by (simp add: sizes u)
  have n: "nearest_hundredth ?x = 4999 / 100"
    by (simp add: nearest_hundredth_def floor_numeral_divide_rat)
  have f: "fixed2 ?x = JString ''49.99''"
    by (simp add: fixed2_def fixed2_digits_def Let_def digits_of_small digits_of_large
        digit_char_def floor_numeral_divide_rat)
  have "utilizationRate ?s = toFixed2 (utilization (usedSize ?s) (totalSize ?s))"
    by (simp add: analyzeBundleSize_def near_half_coverage_def stat_of_def add_coverage_def
        add_ranges_def)
  then have r: "utilizationRate ?s = JString ''49.99''"
    by (simp add: sizes u f)
  have t: "two_fraction_digits ''49.99''"
    by (simp add: two_fraction_digits_def is_digit_def digit_val_def)
  from utilizationRate_kind [of ?s near_half_coverage "[]" ?x,
      OF disjI1 [OF refl], THEN conjunct1, THEN mp, OF h]
  have "js_less (utilizationRate ?s) 50" by (simp add: n)
  with h r t show ?thesis by simp
qed

text \<open>
  The claim as stated, for every coverage with a positive total size, fails where
  \<^verbatim>\<open>toFixed\<close> leaves the fixed notation: a range of \<open>10\<^sup>1\<^sup>9\<close> bytes over a text of one
  character gives the utilization \<open>10\<^sup>2\<^sup>1\<close>, rendered in exponential notation.
\<close>

theorem analyzeBundleSize_huge:
  "0 < totalSize (javascript (analyzeBundleSize huge_coverage []))
   \<and> utilization (usedSize (javascript (analyzeBundleSize huge_coverage [])))
        (totalSize (javascript (analyzeBundleSize huge_coverage []))) = Fin (10 ^ 21)
   \<and> utilizationRate (javascript (analyzeBundleSize huge_coverage [])) = JStringExp (10 ^ 21)"
proof -
  have u: "utilization (10 ^ 19) 1 = Fin (10 ^ 21)"
    by (simp add: utilization_def rounding)
  show ?thesis
    using u by (simp add: analyzeBundleSize_def huge_coverage_def stat_of_def add_coverage_def
        add_ranges_def fixed2_def)
qed

section \<open>Properties of the page analysis\<close>

lemma calls_effect: "calls (effect u name env st w) = calls w"
  by (simp add: effect_def)

lemma calls_record_call: "calls (record_call c w) = calls w @ [c]"
  by (simp add: record_call_def)

lemma run_steps_calls:
  "\<exists>mid. calls (snd (run_steps u name env sts w)) = calls w @ mid
     \<and> Close \<notin> set mid \<and> Launch \<notin> set mid"
proof (induction sts arbitrary: w)
  case Nil
  then show ?case by simp
next
  case (Cons st sts)
  show ?case
  proof (cases "failing_step env = Some st")
    case True
    then show ?thesis by (simp add: calls_record_call)
  next
    case False
    obtain mid where
      "calls (snd (run_steps u name env sts (effect u name env st (record_call (Call st) w))))
        = calls (effect u name env st (record_call (Call st) w)) @ mid"
      and "Close \<notin> set mid" and "Launch \<notin> set mid"
      using Cons.IH by blast
    then have "calls (snd (run_steps u name env (st # sts) w)) = calls w @ (Call st # mid)
      \<and> Close \<notin> set (Call st # mid) \<and> Launch \<notin> set (Call st # mid)"
      using False by (simp add: calls_effect calls_record_call)
    then show ?thesis by blast
  qed
qed

lemma run_steps_outcome:
  "fst (run_steps u name env sts w) =
     (case failing_step env of
        None \<Rightarrow> None
      | Some st \<Rightarrow> if st \<in> set sts then Some (StepFailed st) else None)"
  by (induction sts arbitrary: w) (auto split: option.splits)

lemma try_block_complete: "st \<in> set try_block"
  by (cases st) (simp_all add: try_block_def)

lemma try_block_outcome:
  "fst (run_steps u name env try_block w) = map_option StepFailed (failing_step env)"
  by (simp add: run_steps_outcome try_block_complete split: option.splits)

lemma analyzePage_calls:
  assumes "launch_ok env"
  shows "\<exists>mid. calls (snd (analyzePage u name env w)) = calls w @ [Launch] @ mid @ [Close]
            \<and> Close \<notin> set mid \<and> Launch \<notin> set mid"
proof -
  obtain outcome w' where r: "run_steps u name env try_block (record_call Launch w) = (outcome, w')"
    by (cases "run_steps u name env try_block (record_call Launch w)")
  obtain mid where mid: "calls w' = calls (record_call Launch w) @ mid"
    "Close \<notin> set mid" "Launch \<notin> set mid"
    using run_steps_calls [of u name env try_block "record_call Launch w"] r by auto
  have c: "calls (snd (analyzePage u name env w)) = calls w' @ [Close]"
    using assms by (simp add: analyzePage_def r calls_record_call split: option.splits)
  have "calls (snd (analyzePage u name env w)) = calls w @ [Launch] @ mid @ [Close]"
    by (simp add: c mid calls_record_call)
  then show ?thesis using mid(2,3) by blast
qed

lemma analyzePage_outcome:
  "fst (analyzePage u name env w) =
     (if \<not> launch_ok env then Inl LaunchFailed
      else if \<not> close_ok env then Inl CloseFailed
      else case failing_step env of
             Some st \<Rightarrow> Inl (StepFailed st)
           | None \<Rightarrow> Inr (assemble u name env))"
proof -
  obtain outcome w' where r: "run_steps u name env try_block (record_call Launch w) = (outcome, w')"
    by (cases "run_steps u name env try_block (record_call Launch w)")
  have o: "outcome = map_option StepFailed (failing_step env)"
    using try_block_outcome [of u name env "record_call Launch w"] r by simp
  show ?thesis by (simp add: analyzePage_def r o split: option.splits)
qed

lemma analyzePage_succeeds:
  "page_succeeds env \<Longrightarrow> fst (analyzePage u name env w) = Inr (assemble u name env)"
  by (simp add: analyzePage_outcome page_succeeds_def)

lemma analyzePage_fails:
  "\<not> page_succeeds env \<Longrightarrow> \<exists>e. fst (analyzePage u name env w) = Inl e"
  by (auto simp add: analyzePage_outcome page_succeeds_def split: option.splits)

text \<open>
  \<^verbatim>\<open>analyzePage\<close> returns a result exactly when the launch, every call of the \<^verbatim>\<open>try\<close> block
  and \<^verbatim>\<open>browser.close()\<close> return; the result is then the assembled object.
\<close>

theorem analyzePage_result_iff:
  "(\<exists>r. fst (analyzePage u name env w) = Inr r) = page_succeeds env
   \<and> (fst (analyzePage u name env w) = Inr (assemble u name env)) = page_succeeds env"
  by (auto simp add: analyzePage_outcome page_succeeds_def split: option.splits)

text \<open>
  Claim C9. Whenever \<^verbatim>\<open>puppeteer.launch\<close> has returned a browser, \<^verbatim>\<open>analyzePage\<close> calls
  \<^verbatim>\<open>browser.close()\<close> exactly once, as its last call, on every exit path: when the \<^verbatim>\<open>try\<close>
  block returns the result and when any call in it (page set-up, navigation, vitals,
  resources, coverage, heap metrics, the two file writes) throws.
\<close>

theorem browser_closed:
  assumes "launch_ok env"
  shows "(\<exists>mid. calls (snd (analyzePage u name env w)) = calls w @ [Launch] @ mid @ [Close]
            \<and> Close \<notin> set mid \<and> Launch \<notin> set mid)
    \<and> fst (analyzePage u name env w) =
        (if \<not> close_ok env then Inl CloseFailed
         else case failing_step env of
                Some st \<Rightarrow> Inl (StepFailed st)
              | None \<Rightarrow> Inr (assemble u name env))"
  using assms analyzePage_calls [OF assms, of u name w] analyzePage_outcome [of u name env w]
  by simp

theorem browser_closed_witness:
  "launch_ok navigation_fails
   \<and> calls (snd (analyzePage ''http://localhost:3000/'' ''home'' navigation_fails empty_world))
       = [Launch, Call NewPage, Call SetCacheEnabled, Call SetViewport, Call StartJSCoverage,
          Call StartCSSCoverage, Call Goto, Close]
   \<and> fst (analyzePage ''http://localhost:3000/'' ''home'' navigation_fails empty_world)
       = Inl (StepFailed Goto)
   \<and> launch_ok (page_ok 1000)
   \<and> last (calls (snd (analyzePage ''http://localhost:3000/'' ''home'' (page_ok 1000) empty_world)))
       = Close
   \<and> fst (analyzePage ''http://localhost:3000/'' ''home'' (page_ok 1000) empty_world)
       = Inr (assemble ''http://localhost:3000/'' ''home'' (page_ok 1000))"
proof -
  have l: "launch_ok navigation_fails" "launch_ok (page_ok 1000)"
    by (simp_all add: navigation_fails_def page_ok_def)
  have c: "calls (snd (analyzePage ''http://localhost:3000/'' ''home'' navigation_fails empty_world))
       = [Launch, Call NewPage, Call SetCacheEnabled, Call SetViewport, Call StartJSCoverage,
          Call StartCSSCoverage, Call Goto, Close]"
    by (simp add: analyzePage_def navigation_fails_def page_ok_def try_block_def
        record_call_def effect_def empty_world_def)
  from browser_closed [OF l(1), of "''http://localhost:3000/''" "''home''" empty_world]
  have f: "fst (analyzePage ''http://localhost:3000/'' ''home'' navigation_fails empty_world)
       = Inl (StepFailed Goto)"
    by (simp add: navigation_fails_def page_ok_def)
  from browser_closed [OF l(2), of "''http://localhost:3000/''" "''home''" empty_world]
  have "last (calls (snd (analyzePage ''http://localhost:3000/'' ''home'' (page_ok 1000) empty_world)))
       = Close
   \<and> fst (analyzePage ''http://localhost:3000/'' ''home'' (page_ok 1000) empty_world)
       = Inr (assemble ''http://localhost:3000/'' ''home'' (page_ok 1000))"
    by (auto simp add: page_ok_def)
  with l c f show ?thesis by (intro conjI) simp_all
qed

section \<open>Properties of the batch run\<close>

lemma analyze_pages_results:
  "fst (analyze_pages envs ps results w) =
     results @ map (\<lambda>(u, name). assemble u name (envs name))
                 (filter (\<lambda>(u, name). page_succeeds (envs name)) ps)"
proof (induction ps arbitrary: results w)
  case Nil
  then show ?case by simp
next
  case (Cons p ps)
  obtain u name where p: "p = (u, name)" by (cases p)
  obtain r w' where a: "analyzePage u name (envs name) w = (r, w')"
    by (cases "analyzePage u name (envs name) w")
  show ?case
  proof (cases "page_succeeds (envs name)")
    case True
    then have "r = Inr (assemble u name (envs name))"
      using analyzePage_succeeds [of "envs name" u name w] a by simp
    then show ?thesis using True by (simp add: p a Cons.IH)
  next
    case False
    then obtain e where "r = Inl e"
      using analyzePage_fails [of "envs name" u name w] a by auto
    then show ?thesis using False by (simp add: p a Cons.IH)
  qed
qed

lemma runFullAnalysis_outcome:
  "fst (runFullAnalysis baseUrl env w) =
     (if summary_write_ok env then Inr (results_of env (successful_pages baseUrl env))
      else Inl OverallSummaryWriteFailed)"
proof -
  obtain results w' where a: "analyze_pages (page_env_of env) (pages baseUrl) [] w = (results, w')"
    by (cases "analyze_pages (page_env_of env) (pages baseUrl) [] w")
  have "results = results_of env (successful_pages baseUrl env)"
    using analyze_pages_results [of "page_env_of env" "pages baseUrl" "[]" w] a
    by (simp add: results_of_def successful_pages_def)
  then show ?thesis
    by (simp add: runFullAnalysis_def a generateOverallSummary_def)
qed

lemma runFullAnalysis_summary:
  assumes "summary_write_ok env"
  shows "files (snd (runFullAnalysis baseUrl env w)) OverallSummaryFile =
     Some (OverallJson (stringify_summary
       (summary_of (summary_clock_iso env) (results_of env (successful_pages baseUrl env)))))"
proof -
  obtain results w' where a: "analyze_pages (page_env_of env) (pages baseUrl) [] w = (results, w')"
    by (cases "analyze_pages (page_env_of env) (pages baseUrl) [] w")
  have "results = results_of env (successful_pages baseUrl env)"
    using analyze_pages_results [of "page_env_of env" "pages baseUrl" "[]" w] a
    by (simp add: results_of_def successful_pages_def)
  then show ?thesis
    using assms by (simp add: runFullAnalysis_def a generateOverallSummary_def record_call_def)
qed

lemma exit_code_eq: "exit_code baseUrl env w = (if summary_write_ok env then 0 else 1)"
  by (simp add: exit_code_def runFullAnalysis_outcome)



lemma summary_fields:
  "json_field ''totalPages'' (Some (OverallJson (stringify_summary s)))
     = Some (JsonNumber (of_nat (totalPages s)))"
  "json_field ''averageLoadTime'' (Some (OverallJson (stringify_summary s)))
     = Some (json_of_number (averageLoadTime s))"
  "json_field ''performanceScore'' (Some (OverallJson (stringify_summary s)))
     = Some (json_of_number (performanceScore s))"
  by (simp_all add: json_field_def stringify_summary_def)


lemma summary_of_empty:
  "totalPages (summary_of now []) = 0"
  "averageLoadTime (summary_of now []) = NaN"
  "performanceScore (summary_of now []) = NaN"
  by (simp_all add: summary_of_def js_div_def calculateOverallScore_def totalScore_def)



text \<open>
  Claim C2. When no page analysis returns a result and the overall summary can be
  written, the summary's average load time and score are \<^verbatim>\<open>0 / 0\<close>, that is \<open>NaN\<close>, and
  \<^verbatim>\<open>overall-summary.json\<close> holds \<^verbatim>\<open>null\<close> for \<^verbatim>\<open>averageLoadTime\<close> and for \<^verbatim>\<open>performanceScore\<close>:
  neither is 0 nor any other number. \<^verbatim>\<open>totalPages\<close> is 0.
\<close>

theorem summary_without_results:
  assumes "summary_write_ok env" and "successful_pages baseUrl env = []"
  shows "fst (runFullAnalysis baseUrl env w) = Inr []
    \<and> json_field ''totalPages'' (files (snd (runFullAnalysis baseUrl env w)) OverallSummaryFile)
        = Some (JsonNumber 0)
    \<and> json_field ''averageLoadTime'' (files (snd (runFullAnalysis baseUrl env w)) OverallSummaryFile)
        = Some JsonNull
    \<and> json_field ''performanceScore'' (files (snd (runFullAnalysis baseUrl env w)) OverallSummaryFile)
        = Some JsonNull
    \<and> averageLoadTime (summary_of (summary_clock_iso env) []) = NaN
    \<and> performanceScore (summary_of (summary_clock_iso env) []) = NaN"
  using assms
  by (simp add: runFullAnalysis_outcome runFullAnalysis_summary summary_fields summary_of_empty
      results_of_def)

theorem summary_without_results_witness:
  "summary_write_ok all_failing
   \<and> successful_pages ''http://localhost:3000'' all_failing = []
   \<and> json_field ''averageLoadTime''
        (files (snd (runFullAnalysis ''http://localhost:3000'' all_failing empty_world))
           OverallSummaryFile) = Some JsonNull
   \<and> json_field ''performanceScore''
        (files (snd (runFullAnalysis ''http://localhost:3000'' all_failing empty_world))
           OverallSummaryFile) = Some JsonNull"
proof -
  have ok: "summary_write_ok all_failing" by (simp add: all_failing_def)
  have sp: "successful_pages ''http://localhost:3000'' all_failing = []"
    by (simp add: successful_pages_def pages_def all_failing_def page_succeeds_def
        page_ok_def navigation_fails_def)
  from summary_without_results [OF ok sp, of empty_world] ok sp
  show ?thesis by (intro conjI) simp_all
qed

text \<open>
  Claim C3, as the code has it. A failure to write \<^verbatim>\<open>overall-summary.json\<close> is not caught:
  \<^verbatim>\<open>runFullAnalysis\<close> ends with that error and the process exits with code 1. Every other
  failure, also one of writing a page's result file or summary report inside
  \<^verbatim>\<open>analyzePage\<close>, is caught by the loop: the run returns the results of the pages that
  succeeded and the process exits with code 0.
\<close>

theorem persistence_failures:
  "(\<not> summary_write_ok env \<longrightarrow>
      fst (runFullAnalysis baseUrl env w) = Inl OverallSummaryWriteFailed
      \<and> exit_code baseUrl env w = 1)
   \<and> (summary_write_ok env \<longrightarrow>
      fst (runFullAnalysis baseUrl env w) = Inr (results_of env (successful_pages baseUrl env))
      \<and> exit_code baseUrl env w = 0)"
  by (simp add: runFullAnalysis_outcome exit_code_eq)

theorem persistence_failures_witness:
  "\<not> summary_write_ok summary_unwritable
   \<and> fst (runFullAnalysis ''http://localhost:3000'' summary_unwritable empty_world)
       = Inl OverallSummaryWriteFailed
   \<and> exit_code ''http://localhost:3000'' summary_unwritable empty_world = 1"
proof -
  have no: "\<not> summary_write_ok summary_unwritable" by (simp add: summary_unwritable_def)
  from persistence_failures [of summary_unwritable "''http://localhost:3000''" empty_world,
      THEN conjunct1, THEN mp, OF no] no
  show ?thesis by (intro conjI) simp_all
qed

text \<open>
  The claim as stated, for every persistence failure, fails for a page's result file: when
  \<^verbatim>\<open>writeFileSync\<close> throws in \<^verbatim>\<open>saveResults\<close> for the first page, the loop catches the
  error, the other three pages are analysed, the summary counts three pages and the
  process exits with code 0.
\<close>

theorem result_write_failure_caught:
  "failing_step (page_env_of result_unwritable ''home'') = Some WriteResults
   \<and> fst (analyzePage ''http://localhost:3000/'' ''home''
            (page_env_of result_unwritable ''home'') empty_world) = Inl (StepFailed WriteResults)
   \<and> fst (runFullAnalysis ''http://localhost:3000'' result_unwritable empty_world)
       = Inr (results_of result_unwritable
           [(''http://localhost:3000/customers'', ''customers''),
            (''http://localhost:3000/dashboard'', ''dashboard''),
            (''http://localhost:3000/reports'', ''reports'')])
   \<and> json_field ''totalPages''
        (files (snd (runFullAnalysis ''http://localhost:3000'' result_unwritable empty_world))
           OverallSummaryFile) = Some (JsonNumber 3)
   \<and> exit_code ''http://localhost:3000'' result_unwritable empty_world = 0"
proof -
  have ok: "summary_write_ok result_unwritable" by (simp add: result_unwritable_def)
  have sp: "successful_pages ''http://localhost:3000'' result_unwritable
       = [(''http://localhost:3000/customers'', ''customers''),
          (''http://localhost:3000/dashboard'', ''dashboard''),
          (''http://localhost:3000/reports'', ''reports'')]"
    by (simp add: successful_pages_def pages_def result_unwritable_def page_succeeds_def
        page_ok_def write_fails_def)
  have f: "failing_step (page_env_of result_unwritable ''home'') = Some WriteResults"
    by (simp add: result_unwritable_def write_fails_def)
  have a: "fst (analyzePage ''http://localhost:3000/'' ''home''
            (page_env_of result_unwritable ''home'') empty_world) = Inl (StepFailed WriteResults)"
    by (simp add: analyzePage_outcome f) (simp add: result_unwritable_def write_fails_def page_ok_def)
  have r: "fst (runFullAnalysis ''http://localhost:3000'' result_unwritable empty_world)
       = Inr (results_of result_unwritable
           [(''http://localhost:3000/customers'', ''customers''),
            (''http://localhost:3000/dashboard'', ''dashboard''),
            (''http://localhost:3000/reports'', ''reports'')])"
    by (simp add: runFullAnalysis_outcome ok sp)
  have t: "json_field ''totalPages''
        (files (snd (runFullAnalysis ''http://localhost:3000'' result_unwritable empty_world))
           OverallSummaryFile) = Some (JsonNumber 3)"
    by (simp add: runFullAnalysis_summary [OF ok] summary_fields sp summary_of_def results_of_def)
  have e: "exit_code ''http://localhost:3000'' result_unwritable empty_world = 0"
    by (simp add: exit_code_eq ok)
  show ?thesis by (intro conjI f a r t e)
qed

section \<open>Further properties\<close>

lemma add_coverage_total:
  "fst (add_coverage cov (t, u)) = t + int (sum_list (map (\<lambda>c. length (entry_text c)) cov))"
  by (induction cov arbitrary: t u) (simp_all add: add_coverage_Nil add_coverage_Cons)

text \<open>
  For every pair of coverage lists, the unused size is the total size minus the used size,
  and the total size is the sum of the lengths of the texts.
\<close>

theorem analyzeBundleSize_sizes:
  "unusedSize (javascript (analyzeBundleSize js cs))
     = totalSize (javascript (analyzeBundleSize js cs)) - usedSize (javascript (analyzeBundleSize js cs))
   \<and> unusedSize (css (analyzeBundleSize js cs))
     = totalSize (css (analyzeBundleSize js cs)) - usedSize (css (analyzeBundleSize js cs))
   \<and> totalSize (javascript (analyzeBundleSize js cs))
     = int (sum_list (map (\<lambda>c. length (entry_text c)) js))
   \<and> totalSize (css (analyzeBundleSize js cs))
     = int (sum_list (map (\<lambda>c. length (entry_text c)) cs))"
proof -
  have "totalSize (stat_of p) = fst p" "unusedSize (stat_of p) = fst p - snd p"
    "usedSize (stat_of p) = snd p" for p
    by (cases p; simp add: stat_of_def)+
  then show ?thesis
    using add_coverage_total [of js 0 0] add_coverage_total [of cs 0 0]
    by (simp add: analyzeBundleSize_def)
qed

lemma fold_totalScore:
  "fold (\<lambda>result t. t + max 0 (pageScore result)) rs acc
     = acc + sum_list (map (\<lambda>r. max 0 (pageScore r)) rs)"
  by (induction rs arbitrary: acc) simp_all

lemma totalScore_bounds: "0 \<le> totalScore rs \<and> totalScore rs \<le> 100 * int (length rs)"
proof -
  have "0 \<le> sum_list (map (\<lambda>r. max 0 (pageScore r)) rs)
      \<and> sum_list (map (\<lambda>r. max 0 (pageScore r)) rs) \<le> 100 * int (length rs)"
  proof (induction rs)
    case Nil
    then show ?case by simp
  next
    case (Cons r rs)
    with pageScore_le [of r] show ?case by (simp add: max_def)
  qed
  then show ?thesis by (simp add: totalScore_def fold_totalScore)
qed

text \<open>
  For a batch with at least one result, \<^verbatim>\<open>calculateOverallScore\<close> returns an integer
  between 0 and 100.
\<close>

theorem calculateOverallScore_range:
  assumes "rs \<noteq> []"
  shows "\<exists>n. calculateOverallScore rs = Fin (of_int n) \<and> 0 \<le> n \<and> n \<le> 100"
proof -
  let ?x = "of_int (totalScore rs) / of_nat (length rs) :: rat"
  have len: "0 < length rs" using assms by simp
  have x0: "0 \<le> ?x" using totalScore_bounds [of rs] by simp
  have "(of_int (totalScore rs) :: rat) \<le> of_int (100 * int (length rs))"
    using totalScore_bounds [of rs] by (simp only: of_int_le_iff)
  then have x1: "?x \<le> 100" using len by (simp add: divide_le_eq)
  have "calculateOverallScore rs = Fin (of_int \<lfloor>?x + 1 / 2\<rfloor>)"
    using len by (simp add: calculateOverallScore_def js_div_def)
  moreover have "0 \<le> \<lfloor>?x + 1 / 2\<rfloor>" using x0 by simp
  moreover have "\<lfloor>?x + 1 / 2\<rfloor> \<le> 100"
  proof -
    have "?x + 1 / 2 < 101" using x1 by simp
    then have "\<lfloor>?x + 1 / 2\<rfloor> < 101" by (simp add: floor_less_iff)
    then show ?thesis by simp
  qed
  ultimately show ?thesis by blast
qed

theorem calculateOverallScore_range_witness:
  "[sample_result, slow_result] \<noteq> [] \<and> calculateOverallScore [sample_result, slow_result] = Fin 35"
proof -
  have a: "pageScore sample_result = 65"
    by (simp add: pageScore_def Let_def js_less_def vital_exceeds_def sample_result_def reading)
  have b: "pageScore slow_result = 5"
    by (simp add: pageScore_def Let_def js_less_def vital_exceeds_def slow_result_def reading)
  have "calculateOverallScore [sample_result, slow_result] = Fin 35"
    using calculateOverallScore_range [of "[sample_result, slow_result]"]
    by (simp add: calculateOverallScore_def totalScore_def a b js_div_def floor_numeral_divide_rat)
  then show ?thesis by simp
qed

end
